theory Spec2Isabelle
  imports Main "HOL-Library.AList" "HOL-Library.Multiset"
begin

section \<open>Python values and the primitives the program uses\<close>

text \<open>
  The program of \<^verbatim>\<open>sysReview.py\<close> works on dynamically typed values: strings, lists
  and dictionaries that nest. A dictionary keeps its keys in insertion order, so it is
  an association list; a lookup finds the first entry of a key, and a store replaces
  the entry of a key that is present and appends a new one otherwise.
\<close>

datatype pyval = Str string | Lst "pyval list" | Dict "(string \<times> pyval) list"

text \<open>Exceptions are values; each carries the text that \<^verbatim>\<open>str(e)\<close> gives.\<close>

datatype py_error =
    KeyError string
  | IndexError string
  | AttributeError string
  | TypeError string
  | RuntimeError string
  | OtherError string

fun exn_str :: "py_error \<Rightarrow> string" where
  "exn_str (KeyError m) = m"
| "exn_str (IndexError m) = m"
| "exn_str (AttributeError m) = m"
| "exn_str (TypeError m) = m"
| "exn_str (RuntimeError m) = m"
| "exn_str (OtherError m) = m"

definition bind_err :: "py_error + 'a \<Rightarrow> ('a \<Rightarrow> py_error + 'b) \<Rightarrow> py_error + 'b" where
  "bind_err m f = (case m of Inl e \<Rightarrow> Inl e | Inr x \<Rightarrow> f x)"

fun fold_err :: "('s \<Rightarrow> 'a \<Rightarrow> py_error + 's) \<Rightarrow> 'a list \<Rightarrow> 's \<Rightarrow> py_error + 's" where
  "fold_err f [] s = Inr s"
| "fold_err f (x # xs) s = bind_err (f s x) (fold_err f xs)"

fun type_name :: "pyval \<Rightarrow> string" where
  "type_name (Str _) = ''str''"
| "type_name (Lst _) = ''list''"
| "type_name (Dict _) = ''dict''"

definition quoted :: "string \<Rightarrow> string" where
  "quoted s = CHR 0x27 # s @ [CHR 0x27]"

definition no_attribute :: "pyval \<Rightarrow> string \<Rightarrow> py_error" where
  "no_attribute obj attr =
     AttributeError (quoted (type_name obj) @ '' object has no attribute '' @ quoted attr)"

text \<open>\<^verbatim>\<open>obj.get(key, default)\<close>: only a dictionary has the method.\<close>

definition py_get :: "pyval \<Rightarrow> string \<Rightarrow> pyval \<Rightarrow> py_error + pyval" where
  "py_get obj k d =
     (case obj of
        Dict kvs \<Rightarrow> Inr (case map_of kvs k of Some v \<Rightarrow> v | None \<Rightarrow> d)
      | _ \<Rightarrow> Inl (no_attribute obj ''get''))"

text \<open>\<^verbatim>\<open>obj.items()\<close>\<close>

definition py_items :: "pyval \<Rightarrow> py_error + (string \<times> pyval) list" where
  "py_items obj =
     (case obj of Dict kvs \<Rightarrow> Inr kvs | _ \<Rightarrow> Inl (no_attribute obj ''items''))"

text \<open>\<^verbatim>\<open>obj[key]\<close> with a string key.\<close>

definition py_subscript :: "pyval \<Rightarrow> string \<Rightarrow> py_error + pyval" where
  "py_subscript obj k =
     (case obj of
        Dict kvs \<Rightarrow> (case map_of kvs k of
                       Some v \<Rightarrow> Inr v
                     | None \<Rightarrow> Inl (KeyError (quoted k)))
      | Lst _ \<Rightarrow> Inl (TypeError ''list indices must be integers or slices, not str'')
      | Str _ \<Rightarrow> Inl (TypeError ''string indices must be integers''))"

text \<open>\<^verbatim>\<open>obj[key] = v\<close> with a string key.\<close>

definition py_store :: "pyval \<Rightarrow> string \<Rightarrow> pyval \<Rightarrow> py_error + pyval" where
  "py_store obj k v =
     (case obj of
        Dict kvs \<Rightarrow> Inr (Dict (AList.update k v kvs))
      | Lst _ \<Rightarrow> Inl (TypeError ''list indices must be integers or slices, not str'')
      | Str _ \<Rightarrow> Inl (TypeError (quoted ''str'' @ '' object does not support item assignment'')))"

text \<open>\<^verbatim>\<open>obj.append(v)\<close>\<close>

definition py_append :: "pyval \<Rightarrow> pyval \<Rightarrow> py_error + pyval" where
  "py_append obj v =
     (case obj of Lst xs \<Rightarrow> Inr (Lst (xs @ [v])) | _ \<Rightarrow> Inl (no_attribute obj ''append''))"

text \<open>
  The program reaches into the nested accumulator and mutates what it finds there:
  \<^verbatim>\<open>aggregated[k1][k2].append(v)\<close> and \<^verbatim>\<open>aggregated[k1][k2][k3] = v\<close>.
  The accumulator is the only reference to the objects inside it, so the mutation is
  the functional update along the path of keys.
\<close>

fun append_at :: "string list \<Rightarrow> pyval \<Rightarrow> pyval \<Rightarrow> py_error + pyval" where
  "append_at [] v obj = py_append obj v"
| "append_at (k # ks) v obj =
     bind_err (py_subscript obj k) (\<lambda>child.
     bind_err (append_at ks v child) (\<lambda>child'.
     py_store obj k child'))"

fun store_at :: "string \<Rightarrow> string list \<Rightarrow> pyval \<Rightarrow> pyval \<Rightarrow> py_error + pyval" where
  "store_at k [] v obj = py_store obj k v"
| "store_at k (k' # ks) v obj =
     bind_err (py_subscript obj k) (\<lambda>child.
     bind_err (store_at k' ks v child) (\<lambda>child'.
     py_store obj k child'))"

subsection \<open>Strings\<close>

text \<open>
  \<^verbatim>\<open>sep.join(xs)\<close> on a list of strings, whatever the type of their characters.
\<close>

fun join_str :: "'a list \<Rightarrow> 'a list list \<Rightarrow> 'a list" where
  "join_str sep [] = []"
| "join_str sep [x] = x"
| "join_str sep (x # y # ys) = x @ sep @ join_str sep (y # ys)"

text \<open>
  \<^verbatim>\<open>sep.join(obj)\<close> on a value: every item the iteration yields must be a string.
  Iterating a dictionary yields its keys, iterating a string its characters.
\<close>

fun the_strs :: "pyval list \<Rightarrow> py_error + string list" where
  "the_strs [] = Inr []"
| "the_strs (Str s # vs) = bind_err (the_strs vs) (\<lambda>ss. Inr (s # ss))"
| "the_strs (v # vs) =
     Inl (TypeError (''sequence item: expected str instance, '' @ type_name v @ '' found''))"

definition py_join :: "string \<Rightarrow> pyval \<Rightarrow> py_error + string" where
  "py_join sep obj =
     (case obj of
        Lst vs \<Rightarrow> bind_err (the_strs vs) (\<lambda>ss. Inr (join_str sep ss))
      | Dict kvs \<Rightarrow> Inr (join_str sep (map fst kvs))
      | Str s \<Rightarrow> Inr (join_str sep (map (\<lambda>c. [c]) s)))"

text \<open>
  \<^verbatim>\<open>s.split('. ')\<close>: the text is cut at every occurrence of a period followed by a
  space, found from the left and not overlapping; the empty text gives one empty piece.
\<close>

fun split_period_space :: "string \<Rightarrow> string list" where
  "split_period_space [] = [[]]"
| "split_period_space [c] = [[c]]"
| "split_period_space (c # d # cs) =
     (if c = CHR ''.'' \<and> d = CHR '' '' then [] # split_period_space cs
      else (case split_period_space (d # cs) of
              p # ps \<Rightarrow> (c # p) # ps
            | [] \<Rightarrow> [[c]]))"

subsection \<open>Iteration order of a set of strings\<close>

text \<open>
  \<^verbatim>\<open>set(xs)\<close> keeps one copy of every string of \<open>xs\<close>; the order in which the
  set is then iterated is decided by the interpreter's hash table (the hashes of the
  strings, seeded per process, and the order of insertion). It is the one part of the
  program's behaviour that the source does not fix, so it is a parameter: any function
  that lists the strings of \<open>xs\<close>, each once.
\<close>

typedef set_order =
  "{f :: string list \<Rightarrow> string list. \<forall>xs. distinct (f xs) \<and> set (f xs) = set xs}"
  by (rule exI [of _ remdups]) simp

setup_lifting type_definition_set_order

lift_definition set_iter :: "set_order \<Rightarrow> string list \<Rightarrow> string list" is "\<lambda>f. f" .

text \<open>Two iteration orders: first insertion first, and first insertion last.\<close>

lift_definition insertion_order :: set_order is remdups
  by simp

lift_definition reversed_order :: set_order is "\<lambda>xs. rev (remdups xs)"
  by simp

section \<open>The sentence deduplicator\<close>

text \<open>
  \<^verbatim>\<open>
  def remove_repeated_sentences(summary):
      sentences = set(summary.split('. '))
      return '. '.join(sentences)
  \<close>
\<close>

definition remove_repeated_sentences :: "set_order \<Rightarrow> string \<Rightarrow> string" where
  "remove_repeated_sentences ord summary =
     join_str ''. '' (set_iter ord (split_period_space summary))"

section \<open>The aggregator\<close>

text \<open>
  \<^verbatim>\<open>aggregate_reviews\<close> starts from a literal of nested dictionaries with an empty
  list at every leaf of the section schema.
\<close>

definition aggregated_init :: pyval where
  "aggregated_init =
     Dict [(''A: Abstract'', Lst []),
           (''B: Methods'',
              Dict [(''1. Research Question'', Lst []),
                    (''2. Search Strategy'', Lst []),
                    (''3. Inclusion and Exclusion Criteria'',
                       Dict [(''Inclusion'', Lst []), (''Exclusion'', Lst [])]),
                    (''5. Data Extraction'', Lst []),
                    (''6. Data Synthesis'', Lst [])]),
           (''D: Results'', Lst [])]"

text \<open>
  The body of the inner loop of the first pass,
  \<^verbatim>\<open>for key, sub_section in review.get("B: Methods", {}).items()\<close>:
  \<^verbatim>\<open>
  if key == "3. Inclusion and Exclusion Criteria":
      aggregated["B: Methods"][key]["Inclusion"].append(sub_section.get("Inclusion", ""))
      aggregated["B: Methods"][key]["Exclusion"].append(sub_section.get("Exclusion", ""))
  else:
      aggregated["B: Methods"][key].append(sub_section)
  \<close>
\<close>

definition collect_methods_item :: "pyval \<Rightarrow> string \<times> pyval \<Rightarrow> py_error + pyval" where
  "collect_methods_item aggregated item =
     (case item of (key, sub_section) \<Rightarrow>
        if key = ''3. Inclusion and Exclusion Criteria'' then
          bind_err (py_get sub_section ''Inclusion'' (Str [])) (\<lambda>i.
          bind_err (append_at [''B: Methods'', ''3. Inclusion and Exclusion Criteria'',
                               ''Inclusion''] i aggregated) (\<lambda>agg1.
          bind_err (py_get sub_section ''Exclusion'' (Str [])) (\<lambda>e.
          append_at [''B: Methods'', ''3. Inclusion and Exclusion Criteria'',
                     ''Exclusion''] e agg1)))
        else append_at [''B: Methods'', key] sub_section aggregated)"

text \<open>The body of the first pass, \<^verbatim>\<open>for review in reviews\<close>.\<close>

definition collect_review :: "pyval \<Rightarrow> pyval \<Rightarrow> py_error + pyval" where
  "collect_review aggregated review =
     bind_err (py_get review ''A: Abstract'' (Str [])) (\<lambda>a.
     bind_err (append_at [''A: Abstract''] a aggregated) (\<lambda>agg1.
     bind_err (py_get review ''B: Methods'' (Dict [])) (\<lambda>methods.
     bind_err (py_items methods) (\<lambda>items.
     bind_err (fold_err collect_methods_item items agg1) (\<lambda>agg2.
     bind_err (py_get review ''D: Results'' (Str [])) (\<lambda>d.
     append_at [''D: Results''] d agg2))))))"

text \<open>\<^verbatim>\<open>remove_repeated_sentences(" ".join(xs))\<close>\<close>

definition join_dedupe :: "set_order \<Rightarrow> pyval \<Rightarrow> py_error + pyval" where
  "join_dedupe ord xs =
     bind_err (py_join '' '' xs) (\<lambda>s. Inr (Str (remove_repeated_sentences ord s)))"

text \<open>
  The body of the loop of the second pass,
  \<^verbatim>\<open>for key, sub_section in aggregated["B: Methods"].items()\<close>. A step replaces
  the value of keys that exist, so the dictionary iterated keeps its keys, and the
  value the loop reads for a later key is the one the first pass left there.
\<close>

definition finish_methods_item :: "set_order \<Rightarrow> pyval \<Rightarrow> string \<times> pyval \<Rightarrow> py_error + pyval" where
  "finish_methods_item ord aggregated item =
     (case item of (key, sub_section) \<Rightarrow>
        if key = ''3. Inclusion and Exclusion Criteria'' then
          bind_err (py_subscript sub_section ''Inclusion'') (\<lambda>incl.
          bind_err (join_dedupe ord incl) (\<lambda>i.
          bind_err (store_at ''B: Methods'' [''3. Inclusion and Exclusion Criteria'',
                              ''Inclusion''] i aggregated) (\<lambda>agg1.
          bind_err (py_subscript sub_section ''Exclusion'') (\<lambda>excl.
          bind_err (join_dedupe ord excl) (\<lambda>e.
          store_at ''B: Methods'' [''3. Inclusion and Exclusion Criteria'',
                    ''Exclusion''] e agg1)))))
        else
          bind_err (join_dedupe ord sub_section) (\<lambda>v.
          store_at ''B: Methods'' [key] v aggregated))"

definition finish_aggregated :: "set_order \<Rightarrow> pyval \<Rightarrow> py_error + pyval" where
  "finish_aggregated ord aggregated =
     bind_err (py_subscript aggregated ''A: Abstract'') (\<lambda>abstracts.
     bind_err (join_dedupe ord abstracts) (\<lambda>a.
     bind_err (py_store aggregated ''A: Abstract'' a) (\<lambda>agg1.
     bind_err (py_subscript agg1 ''B: Methods'') (\<lambda>methods.
     bind_err (py_items methods) (\<lambda>items.
     bind_err (fold_err (finish_methods_item ord) items agg1) (\<lambda>agg2.
     bind_err (py_subscript agg2 ''D: Results'') (\<lambda>results.
     bind_err (join_dedupe ord results) (\<lambda>d.
     py_store agg2 ''D: Results'' d))))))))"

definition aggregate_reviews :: "set_order \<Rightarrow> pyval list \<Rightarrow> py_error + pyval" where
  "aggregate_reviews ord reviews =
     bind_err (fold_err collect_review reviews aggregated_init) (finish_aggregated ord)"

section \<open>The text normalizer\<close>

text \<open>
  \<^verbatim>\<open>
  def clean_text(text):
      return " ".join(text.split())
  \<close>
  \<^verbatim>\<open>text.split()\<close> with no separator cuts the text at runs of whitespace and
  returns no empty piece. What counts as whitespace is Unicode's table, which reaches
  beyond one byte, so here a text is the list of its code points.
\<close>

type_synonym codepoints = "nat list"

definition py_isspace :: "nat \<Rightarrow> bool" where
  "py_isspace c \<longleftrightarrow>
     c \<in> set [9, 10, 11, 12, 13, 28, 29, 30, 31, 32, 133, 160, 5760,
              8192, 8193, 8194, 8195, 8196, 8197, 8198, 8199, 8200, 8201, 8202,
              8232, 8233, 8239, 8287, 12288]"

function split_whitespace :: "codepoints \<Rightarrow> codepoints list" where
  "split_whitespace [] = []"
| "split_whitespace (c # cs) =
     (if py_isspace c then split_whitespace cs
      else takeWhile (\<lambda>x. \<not> py_isspace x) (c # cs)
           # split_whitespace (dropWhile (\<lambda>x. \<not> py_isspace x) (c # cs)))"
  by pat_completeness auto
termination
  by (relation "measure length") (auto simp: length_dropWhile_le less_Suc_eq_le)

definition clean_text :: "codepoints \<Rightarrow> codepoints" where
  "clean_text text = join_str [32] (split_whitespace text)"

definition codepoints_of :: "string \<Rightarrow> codepoints" where
  "codepoints_of s = map of_char s"

section \<open>The summarizer adapter\<close>

text \<open>
  Two things the program calls are not its own: the summarization pipeline of the
  \<^verbatim>\<open>transformers\<close> library, called as
  \<^verbatim>\<open>summarizer(input, max_length=.., min_length=.., do_sample=..)\<close>, which
  returns a value or raises, and the interpreter's \<^verbatim>\<open>repr\<close>, which an f-string
  applies to a value that is not a string. Both are parameters. An exception of the
  pipeline is one that \<^verbatim>\<open>except Exception\<close> catches.
\<close>

record runtime =
  summarizer :: "string \<Rightarrow> int \<Rightarrow> int \<Rightarrow> bool \<Rightarrow> py_error + pyval"
  py_repr :: "pyval \<Rightarrow> string"

text \<open>\<^verbatim>\<open>f"{prompt}"\<close>\<close>

definition format_value :: "runtime \<Rightarrow> pyval \<Rightarrow> string" where
  "format_value rt v = (case v of Str s \<Rightarrow> s | _ \<Rightarrow> py_repr rt v)"

text \<open>\<^verbatim>\<open>obj[0]\<close>\<close>

definition py_first :: "pyval \<Rightarrow> py_error + pyval" where
  "py_first obj =
     (case obj of
        Lst [] \<Rightarrow> Inl (IndexError ''list index out of range'')
      | Lst (x # _) \<Rightarrow> Inr x
      | Str [] \<Rightarrow> Inl (IndexError ''string index out of range'')
      | Str (c # _) \<Rightarrow> Inr (Str [c])
      | Dict _ \<Rightarrow> Inl (KeyError ''0''))"

text \<open>
  \<^verbatim>\<open>
  def summarize_text(text, prompt, max_length=150, min_length=30):
      try:
          return summarizer(
              f"{prompt}\n{text}",
              max_length=max_length,
              min_length=min_length,
              do_sample=False
          )[0]['summary_text']
      except Exception as e:
          raise RuntimeError(f"Summarization failed: {e}")
  \<close>
\<close>

definition summarize_text :: "runtime \<Rightarrow> string \<Rightarrow> pyval \<Rightarrow> int \<Rightarrow> int \<Rightarrow> py_error + pyval" where
  "summarize_text rt text prompt max_length min_length =
     (case bind_err (summarizer rt (format_value rt prompt @ [CHR 0x0A] @ text)
                       max_length min_length False) (\<lambda>out.
           bind_err (py_first out) (\<lambda>best.
           py_subscript best ''summary_text'')) of
        Inr summary \<Rightarrow> Inr summary
      | Inl e \<Rightarrow> Inl (RuntimeError (''Summarization failed: '' @ exn_str e)))"

section \<open>The schema walker\<close>

text \<open>The dictionary \<^verbatim>\<open>sections\<close> of \<^verbatim>\<open>structured_summary\<close>.\<close>

definition sections :: "(string \<times> pyval) list" where
  "sections =
     [(''A: Abstract'',
         Str ''Provide a concise and clear summary of the document's key focus and purpose.''),
      (''B: Methods'',
         Dict [(''1. Research Question'',
                  Str ''What is the primary research question explicitly stated in the document?''),
               (''2. Search Strategy'',
                  Str ''Summarize the methods used to identify and select studies, such as databases searched and keywords.''),
               (''3. Inclusion and Exclusion Criteria'',
                  Dict [(''Inclusion'',
                           Str ''List the specific criteria used to include studies in this review.''),
                        (''Exclusion'',
                           Str ''List the specific criteria used to exclude studies from this review.'')]),
               (''5. Data Extraction'',
                  Str ''Describe the process and tools used for extracting data in this research.''),
               (''6. Data Synthesis'',
                  Str ''Explain the approach and methods used to synthesize the data extracted.'')]),
      (''D: Results'', Str ''Summarize the primary findings and results of this review.'')]"

text \<open>
  The three loops of \<^verbatim>\<open>structured_summary\<close>, innermost first. Each starts from
  an empty dictionary and stores one entry per item; a summarization that raises ends
  the whole walk.
  \<^verbatim>\<open>
  for nested_section, nested_prompt in sub_prompt.items():
      result = summarize_text(text, nested_prompt)
      nested_sections[nested_section] = result
  \<close>
\<close>

definition nested_step ::
  "runtime \<Rightarrow> string \<Rightarrow> (string \<times> pyval) list \<Rightarrow> string \<times> pyval \<Rightarrow> py_error + (string \<times> pyval) list" where
  "nested_step rt text nested_sections item =
     (case item of (nested_section, nested_prompt) \<Rightarrow>
        bind_err (summarize_text rt text nested_prompt 150 30) (\<lambda>result.
        Inr (AList.update nested_section result nested_sections)))"

text \<open>
  \<^verbatim>\<open>
  for sub_section, sub_prompt in prompt.items():
      if isinstance(sub_prompt, dict):
          nested_sections = {}
          (the innermost loop)
          sub_sections[sub_section] = nested_sections
      else:
          result = summarize_text(text, sub_prompt)
          sub_sections[sub_section] = result
  \<close>
\<close>

definition sub_step ::
  "runtime \<Rightarrow> string \<Rightarrow> (string \<times> pyval) list \<Rightarrow> string \<times> pyval \<Rightarrow> py_error + (string \<times> pyval) list" where
  "sub_step rt text sub_sections item =
     (case item of (sub_section, sub_prompt) \<Rightarrow>
        (case sub_prompt of
           Dict nested_items \<Rightarrow>
             bind_err (fold_err (nested_step rt text) nested_items []) (\<lambda>nested_sections.
             Inr (AList.update sub_section (Dict nested_sections) sub_sections))
         | _ \<Rightarrow>
             bind_err (summarize_text rt text sub_prompt 150 30) (\<lambda>result.
             Inr (AList.update sub_section result sub_sections))))"

text \<open>
  \<^verbatim>\<open>
  for section, prompt in sections.items():
      if isinstance(prompt, dict):
          sub_sections = {}
          (the middle loop)
          review[section] = sub_sections
      else:
          result = summarize_text(text, prompt)
          review[section] = result
  \<close>
\<close>

definition section_step ::
  "runtime \<Rightarrow> string \<Rightarrow> (string \<times> pyval) list \<Rightarrow> string \<times> pyval \<Rightarrow> py_error + (string \<times> pyval) list" where
  "section_step rt text review item =
     (case item of (section, prompt) \<Rightarrow>
        (case prompt of
           Dict sub_items \<Rightarrow>
             bind_err (fold_err (sub_step rt text) sub_items []) (\<lambda>sub_sections.
             Inr (AList.update section (Dict sub_sections) review))
         | _ \<Rightarrow>
             bind_err (summarize_text rt text prompt 150 30) (\<lambda>result.
             Inr (AList.update section result review))))"

text \<open>
  The loops run on the dictionary they are given; \<^verbatim>\<open>structured_summary\<close> gives
  them \<^verbatim>\<open>sections\<close>.
\<close>

definition walk_sections :: "runtime \<Rightarrow> string \<Rightarrow> (string \<times> pyval) list \<Rightarrow> py_error + pyval" where
  "walk_sections rt text schema =
     bind_err (fold_err (section_step rt text) schema []) (\<lambda>review. Inr (Dict review))"

definition structured_summary :: "runtime \<Rightarrow> string \<Rightarrow> py_error + pyval" where
  "structured_summary rt text = walk_sections rt text sections"

section \<open>Trees of the section schema\<close>

text \<open>
  The dictionary of the shape that \<^verbatim>\<open>sections\<close> and the accumulator of
  \<^verbatim>\<open>aggregate_reviews\<close> share, holding the eight given values at its leaves.
\<close>

definition filled ::
  "pyval \<Rightarrow> pyval \<Rightarrow> pyval \<Rightarrow> pyval \<Rightarrow> pyval \<Rightarrow> pyval \<Rightarrow> pyval \<Rightarrow> pyval \<Rightarrow> pyval" where
  "filled a q s i e x y d =
     Dict [(''A: Abstract'', a),
           (''B: Methods'',
              Dict [(''1. Research Question'', q),
                    (''2. Search Strategy'', s),
                    (''3. Inclusion and Exclusion Criteria'',
                       Dict [(''Inclusion'', i), (''Exclusion'', e)]),
                    (''5. Data Extraction'', x),
                    (''6. Data Synthesis'', y)]),
           (''D: Results'', d)]"

text \<open>The tree of that shape that holds \<open>f p\<close> at the leaf of path \<open>p\<close>.\<close>

definition review_tree :: "(string list \<Rightarrow> pyval) \<Rightarrow> pyval" where
  "review_tree f =
     filled (f [''A: Abstract''])
            (f [''B: Methods'', ''1. Research Question''])
            (f [''B: Methods'', ''2. Search Strategy''])
            (f [''B: Methods'', ''3. Inclusion and Exclusion Criteria'', ''Inclusion''])
            (f [''B: Methods'', ''3. Inclusion and Exclusion Criteria'', ''Exclusion''])
            (f [''B: Methods'', ''5. Data Extraction''])
            (f [''B: Methods'', ''6. Data Synthesis''])
            (f [''D: Results''])"

text \<open>The node a path of keys leads to, and the string at a leaf (empty when absent).\<close>

fun lookup_path :: "pyval \<Rightarrow> string list \<Rightarrow> pyval option" where
  "lookup_path v [] = Some v"
| "lookup_path (Dict kvs) (k # ks) =
     (case map_of kvs k of Some child \<Rightarrow> lookup_path child ks | None \<Rightarrow> None)"
| "lookup_path _ (k # ks) = None"

definition leaf_str :: "pyval \<Rightarrow> string list \<Rightarrow> string" where
  "leaf_str v p = (case lookup_path v p of Some (Str s) \<Rightarrow> s | _ \<Rightarrow> [])"

text \<open>All paths of a tree, the root's empty path first.\<close>

fun node_paths :: "pyval \<Rightarrow> string list list" where
  "node_paths (Dict kvs) = [] # concat (map (\<lambda>(k, child). map ((#) k) (node_paths child)) kvs)"
| "node_paths _ = [[]]"

text \<open>
  A value has the shape of a schema when it is a string where the schema has a prompt,
  and where the schema has a dictionary it is a dictionary of the same keys (in any
  order, each once) whose values have the shape of the schema's.
\<close>

fun shaped_like :: "pyval \<Rightarrow> pyval \<Rightarrow> bool" where
  "shaped_like (Dict schema) (Dict kvs) \<longleftrightarrow>
     distinct (map fst kvs) \<and> set (map fst kvs) = set (map fst schema) \<and>
     (\<forall>(k, sub) \<in> set schema.
        case map_of kvs k of Some v \<Rightarrow> shaped_like sub v | None \<Rightarrow> False)"
| "shaped_like (Str _) (Str _) \<longleftrightarrow> True"
| "shaped_like _ _ \<longleftrightarrow> False"

definition valid_review :: "pyval \<Rightarrow> bool" where
  "valid_review r \<longleftrightarrow> shaped_like (Dict sections) r"

text \<open>
  What the first pass of \<^verbatim>\<open>aggregate_reviews\<close> appends for one review at each
  leaf: the items of its methods dictionary (none when it has no such dictionary), the
  values among them under a key, and a lookup that falls back on a default.
\<close>

definition dict_get :: "pyval \<Rightarrow> string \<Rightarrow> pyval \<Rightarrow> pyval" where
  "dict_get obj k d =
     (case obj of Dict kvs \<Rightarrow> (case map_of kvs k of Some v \<Rightarrow> v | None \<Rightarrow> d) | _ \<Rightarrow> d)"

definition methods_items_of :: "pyval \<Rightarrow> (string \<times> pyval) list" where
  "methods_items_of review =
     (case dict_get review ''B: Methods'' (Dict []) of Dict items \<Rightarrow> items | _ \<Rightarrow> [])"

definition values_under :: "string \<Rightarrow> (string \<times> pyval) list \<Rightarrow> pyval list" where
  "values_under k items = map snd (filter (\<lambda>item. fst item = k) items)"

fun contribution :: "pyval \<Rightarrow> string list \<Rightarrow> pyval list" where
  "contribution review [k] = [dict_get review k (Str [])]"
| "contribution review [b, k] = values_under k (methods_items_of review)"
| "contribution review [b, c, k] =
     map (\<lambda>sub. dict_get sub k (Str [])) (values_under c (methods_items_of review))"
| "contribution review _ = []"

text \<open>
  The first pass runs through on a review that is a dictionary whose methods entry,
  when present, is a dictionary with no key but the schema's five, the criteria among
  them a dictionary too.
\<close>

definition plain_method_keys :: "string list" where
  "plain_method_keys =
     [''1. Research Question'', ''2. Search Strategy'', ''5. Data Extraction'',
      ''6. Data Synthesis'']"

definition collectable_item :: "string \<times> pyval \<Rightarrow> bool" where
  "collectable_item item \<longleftrightarrow>
     (if fst item = ''3. Inclusion and Exclusion Criteria''
      then (case snd item of Dict _ \<Rightarrow> True | _ \<Rightarrow> False)
      else fst item \<in> set plain_method_keys)"

definition collectable :: "pyval \<Rightarrow> bool" where
  "collectable review \<longleftrightarrow>
     (case review of
        Dict kvs \<Rightarrow>
          (case dict_get review ''B: Methods'' (Dict []) of
             Dict items \<Rightarrow> list_all collectable_item items
           | _ \<Rightarrow> False)
      | _ \<Rightarrow> False)"

text \<open>Everything the first pass appends at a leaf, review after review.\<close>

definition gathered :: "pyval list \<Rightarrow> string list \<Rightarrow> pyval list" where
  "gathered reviews p = concat (map (\<lambda>review. contribution review p) reviews)"

section \<open>The walk the specification describes\<close>

text \<open>
  The specification words the schema walker as a recursion: for each entry of a branch,
  a value that is itself a branch is walked in turn, and a leaf prompt goes to the
  summarizer adapter, the returned text being recorded at that path. This is that
  recursion, for comparison with the loops of \<^verbatim>\<open>structured_summary\<close>; a
  summarization that raises ends it, as it ends the loops.
\<close>

fun build_review :: "runtime \<Rightarrow> string \<Rightarrow> pyval \<Rightarrow> py_error + pyval"
  and build_items ::
    "runtime \<Rightarrow> string \<Rightarrow> (string \<times> pyval) list \<Rightarrow> py_error + (string \<times> pyval) list" where
  "build_review rt text (Dict items) =
     bind_err (build_items rt text items) (\<lambda>review. Inr (Dict review))"
| "build_review rt text (Str prompt) = summarize_text rt text (Str prompt) 150 30"
| "build_review rt text (Lst xs) = summarize_text rt text (Lst xs) 150 30"
| "build_items rt text [] = Inr []"
| "build_items rt text ((k, v) # rest) =
     bind_err (build_review rt text v) (\<lambda>r.
     bind_err (build_items rt text rest) (\<lambda>rs.
     Inr ((k, r) # rs)))"

text \<open>
  A schema nests within \<open>n\<close> levels when its dictionaries, each with its keys
  distinct, are at most \<open>n\<close> deep.
\<close>

fun nests_within :: "nat \<Rightarrow> pyval \<Rightarrow> bool" where
  "nests_within n (Dict items) \<longleftrightarrow>
     0 < n \<and> distinct (map fst items) \<and> (\<forall>(k, v) \<in> set items. nests_within (n - 1) v)"
| "nests_within n _ \<longleftrightarrow> True"

text \<open>The prompts at the leaves of a schema, in the order of the walk.\<close>

fun leaf_prompts :: "pyval \<Rightarrow> pyval list" where
  "leaf_prompts (Dict items) = concat (map (\<lambda>(k, v). leaf_prompts v) items)"
| "leaf_prompts v = [v]"

section \<open>Examples\<close>

text \<open>
  A runtime whose pipeline raises on an input that is only the line break between an
  empty prompt and an empty text, and returns one summary otherwise.
\<close>

definition sample_runtime :: runtime where
  "sample_runtime =
     \<lparr> summarizer = (\<lambda>input max_length min_length do_sample.
          if input = [CHR 0x0A] then Inl (OtherError ''empty input'')
          else Inr (Lst [Dict [(''summary_text'', Str ''A summary.'')]])),
       py_repr = (\<lambda>v. ''{...}'') \<rparr>"

text \<open>A schema with a prompt at the fourth level.\<close>

definition deep_schema :: "(string \<times> pyval) list" where
  "deep_schema =
     [(''S'', Dict [(''T'', Dict [(''U'', Dict [(''V'', Str ''Prompt at level four.'')])])])]"

text \<open>
  A review that has every path of the schema but the research question, its other
  leaves empty.
\<close>

definition review_lacking_question :: pyval where
  "review_lacking_question =
     Dict [(''A: Abstract'', Str []),
           (''B: Methods'',
              Dict [(''2. Search Strategy'', Str []),
                    (''3. Inclusion and Exclusion Criteria'',
                       Dict [(''Inclusion'', Str []), (''Exclusion'', Str [])]),
                    (''5. Data Extraction'', Str []),
                    (''6. Data Synthesis'', Str [])]),
           (''D: Results'', Str [])]"

section \<open>Facts about the primitives\<close>

subsection \<open>Iteration orders\<close>

lemma set_iter_distinct: "distinct (set_iter ord xs)"
  by transfer simp

lemma set_iter_set: "set (set_iter ord xs) = set xs"
  by transfer simp

lemma set_iter_mset: "mset (set_iter ord xs) = mset (remdups xs)"
  by (simp add: set_eq_iff_mset_eq_distinct [symmetric] set_iter_distinct set_iter_set)

lemma set_iter_Nil: "set_iter ord [] = []"
  using set_iter_set [of ord "[]"] by simp

lemma set_iter_single: "set_iter ord [x] = [x]"
proof -
  have "mset (set_iter ord [x]) = {#x#}" by (simp add: set_iter_mset)
  then show ?thesis by (simp add: mset_single_iff_right)
qed

lemma set_iter_same: "set_iter ord [x, x] = [x]"
proof -
  have "mset (set_iter ord [x, x]) = {#x#}" by (simp add: set_iter_mset)
  then show ?thesis by (simp add: mset_single_iff_right)
qed

lemma set_iter_pair:
  assumes "x \<noteq> y"
  shows "set_iter ord [x, y] = [x, y] \<or> set_iter ord [x, y] = [y, x]"
proof -
  have m: "mset (set_iter ord [x, y]) = {#x, y#}"
    using assms by (simp add: set_iter_mset)
  then have "size (mset (set_iter ord [x, y])) = 2" by simp
  then have "length (set_iter ord [x, y]) = 2" by simp
  then obtain a b where ab: "set_iter ord [x, y] = [a, b]"
    by (auto simp: length_Suc_conv numeral_2_eq_2)
  have "set (set_iter ord [x, y]) = {x, y}" by (simp add: set_iter_set)
  with ab have "{a, b} = {x, y}" by simp
  then have "(a = x \<and> b = y) \<or> (a = y \<and> b = x)"
    by (simp add: doubleton_eq_iff)
  with ab show ?thesis by auto
qed

lemma set_iter_insertion: "set_iter insertion_order xs = remdups xs"
  by transfer simp

lemma set_iter_reversed: "set_iter reversed_order xs = rev (remdups xs)"
  by transfer simp

subsection \<open>Splitting and joining sentences\<close>

lemma split_not_Nil: "split_period_space s \<noteq> []"
  by (induction s rule: split_period_space.induct) (auto split: list.splits)

lemma split_append_delim:
  "split_period_space y = [y] \<Longrightarrow> split_period_space (y @ ''. '' @ t) = y # split_period_space t"
proof (induction y rule: split_period_space.induct)
  case 1
  then show ?case by simp
next
  case (2 c)
  then show ?case by simp
next
  case (3 c d cs)
  then show ?case
    by (auto split: if_splits list.splits)
qed

lemma split_piece: "p \<in> set (split_period_space s) \<Longrightarrow> split_period_space p = [p]"
proof (induction s arbitrary: p rule: split_period_space.induct)
  case 1
  then show ?case by simp
next
  case (2 c)
  then show ?case by simp
next
  case (3 c d cs)
  show ?case
  proof (cases "c = CHR ''.'' \<and> d = CHR '' ''")
    case True
    with 3 show ?thesis by auto
  next
    case False
    obtain q qs where q: "split_period_space (d # cs) = q # qs"
      using split_not_Nil [of "d # cs"] by (cases "split_period_space (d # cs)") auto
    with False 3(3) have "p = c # q \<or> p \<in> set qs" by auto
    then show ?thesis
    proof
      assume "p \<in> set qs"
      with 3(2) False q show ?thesis by auto
    next
      assume p: "p = c # q"
      have qq: "split_period_space q = [q]" using 3(2) False q by auto
      show ?thesis
      proof (cases q)
        case Nil
        with p show ?thesis by simp
      next
        case (Cons e es)
        have "e = d" using q Cons by (cases cs) (auto split: if_splits list.splits)
        with p Cons qq False show ?thesis by auto
      qed
    qed
  qed
qed

lemma split_join:
  "ys \<noteq> [] \<Longrightarrow> \<forall>y\<in>set ys. split_period_space y = [y] \<Longrightarrow>
   split_period_space (join_str ''. '' ys) = ys"
proof (induction ys)
  case Nil
  then show ?case by simp
next
  case (Cons x ys)
  show ?case
  proof (cases ys)
    case Nil
    with Cons.prems show ?thesis by simp
  next
    case (Cons y zs)
    have "split_period_space (x @ ''. '' @ join_str ''. '' ys) = x # split_period_space (join_str ''. '' ys)"
      using Cons.prems by (intro split_append_delim) simp
    moreover have "split_period_space (join_str ''. '' ys) = ys"
      using Cons.IH Cons.prems Cons by simp
    ultimately show ?thesis using Cons by simp
  qed
qed

lemma split_dedupe:
  "split_period_space (remove_repeated_sentences ord s) = set_iter ord (split_period_space s)"
proof -
  have "set_iter ord (split_period_space s) \<noteq> []"
    using set_iter_set [of ord "split_period_space s"] split_not_Nil [of s] by auto
  moreover have "\<forall>y\<in>set (set_iter ord (split_period_space s)). split_period_space y = [y]"
    by (simp add: set_iter_set split_piece)
  ultimately show ?thesis
    unfolding remove_repeated_sentences_def by (rule split_join)
qed

section \<open>Properties of the sentence deduplicator\<close>

text \<open>
  Claim C7, as the program has it. Deduplicating twice gives the sentences of
  deduplicating once, each exactly once: they are the distinct sentences of the input.
  The two texts list them in the order in which the interpreter iterates the two sets,
  and they are the same text exactly when the second set is iterated in the order of
  the first.
\<close>

theorem remove_repeated_sentences_twice:
  "mset (split_period_space (remove_repeated_sentences ord (remove_repeated_sentences ord s)))
     = mset (split_period_space (remove_repeated_sentences ord s))
   \<and> mset (split_period_space (remove_repeated_sentences ord s))
       = mset (remdups (split_period_space s))
   \<and> ((remove_repeated_sentences ord (remove_repeated_sentences ord s)
         = remove_repeated_sentences ord s)
       = (set_iter ord (set_iter ord (split_period_space s))
           = set_iter ord (split_period_space s)))"
proof -
  let ?xs = "split_period_space s"
  let ?once = "remove_repeated_sentences ord s"
  let ?twice = "remove_repeated_sentences ord ?once"
  have once: "split_period_space ?once = set_iter ord ?xs"
    by (rule split_dedupe)
  have twice: "split_period_space ?twice = set_iter ord (set_iter ord ?xs)"
    by (simp add: split_dedupe)
  have same: "mset (set_iter ord (set_iter ord ?xs)) = mset (set_iter ord ?xs)"
    by (simp add: set_eq_iff_mset_eq_distinct [symmetric] set_iter_distinct set_iter_set)
  have joined: "?twice = join_str ''. '' (set_iter ord (set_iter ord ?xs))"
    using once by (simp add: remove_repeated_sentences_def)
  have "(?twice = ?once) = (set_iter ord (set_iter ord ?xs) = set_iter ord ?xs)"
  proof
    assume "?twice = ?once"
    then have "split_period_space ?twice = split_period_space ?once" by simp
    then show "set_iter ord (set_iter ord ?xs) = set_iter ord ?xs"
      using once twice by simp
  next
    assume "set_iter ord (set_iter ord ?xs) = set_iter ord ?xs"
    then show "?twice = ?once"
      using joined by (simp add: remove_repeated_sentences_def)
  qed
  then show ?thesis
    using once twice same by (simp add: set_iter_mset)
qed

text \<open>
  Claim C7 as stated fails: when the set of \<open>ab\<close> and \<open>bc\<close> is iterated last
  insertion first, the text \<open>ab. bc\<close> becomes \<open>bc. ab\<close>, and that one becomes
  \<open>ab. bc\<close> again.
\<close>

theorem remove_repeated_sentences_not_idempotent:
  "remove_repeated_sentences reversed_order ''ab. bc'' = ''bc. ab''
   \<and> remove_repeated_sentences reversed_order
        (remove_repeated_sentences reversed_order ''ab. bc'') = ''ab. bc''"
  by (simp add: remove_repeated_sentences_def set_iter_reversed)

section \<open>Properties of the text normalizer\<close>

lemma split_whitespace_words:
  "w \<in> set (split_whitespace s) \<Longrightarrow> w \<noteq> [] \<and> (\<forall>c\<in>set w. \<not> py_isspace c)"
proof (induction s arbitrary: w rule: split_whitespace.induct)
  case 1
  then show ?case by simp
next
  case (2 c cs)
  show ?case
  proof (cases "py_isspace c")
    case True
    with 2 show ?thesis by simp
  next
    case False
    with 2(3) have "w = takeWhile (\<lambda>x. \<not> py_isspace x) (c # cs)
        \<or> w \<in> set (split_whitespace (dropWhile (\<lambda>x. \<not> py_isspace x) (c # cs)))"
      by simp
    then show ?thesis
    proof
      assume w: "w = takeWhile (\<lambda>x. \<not> py_isspace x) (c # cs)"
      then have "\<forall>x\<in>set w. \<not> py_isspace x" by (auto dest: set_takeWhileD)
      moreover have "w \<noteq> []" using w False by simp
      ultimately show ?thesis by simp
    next
      assume "w \<in> set (split_whitespace (dropWhile (\<lambda>x. \<not> py_isspace x) (c # cs)))"
      with 2(2) False show ?thesis by blast
    qed
  qed
qed

lemma space_is_space: "py_isspace 32"
  by (simp add: py_isspace_def)

lemma split_whitespace_single:
  assumes "w \<noteq> []" and "\<forall>c\<in>set w. \<not> py_isspace c"
  shows "split_whitespace w = [w]"
proof -
  obtain c cs where w: "w = c # cs" using assms(1) by (cases w) auto
  have tw: "takeWhile (\<lambda>x. \<not> py_isspace x) w = w"
    using assms(2) by (simp add: takeWhile_eq_all_conv)
  have dw: "dropWhile (\<lambda>x. \<not> py_isspace x) w = []"
    using assms(2) by simp
  have "split_whitespace w
          = takeWhile (\<lambda>x. \<not> py_isspace x) w
            # split_whitespace (dropWhile (\<lambda>x. \<not> py_isspace x) w)"
    using w assms(2) by simp
  then show ?thesis by (simp only: tw dw split_whitespace.simps)
qed

lemma split_whitespace_then_space:
  assumes "w \<noteq> []" and "\<forall>c\<in>set w. \<not> py_isspace c"
  shows "split_whitespace (w @ 32 # t) = w # split_whitespace t"
proof -
  obtain c cs where w: "w = c # cs" using assms(1) by (cases w) auto
  have tw: "takeWhile (\<lambda>x. \<not> py_isspace x) (w @ 32 # t) = w"
    using assms(2) by (simp add: space_is_space)
  have dw: "dropWhile (\<lambda>x. \<not> py_isspace x) (w @ 32 # t) = 32 # t"
    using assms(2) by (simp add: space_is_space)
  have "split_whitespace (w @ 32 # t)
          = takeWhile (\<lambda>x. \<not> py_isspace x) (w @ 32 # t)
            # split_whitespace (dropWhile (\<lambda>x. \<not> py_isspace x) (w @ 32 # t))"
    using w assms(2) by simp
  then show ?thesis using tw dw by (simp add: space_is_space)
qed

lemma split_whitespace_join:
  "\<forall>w\<in>set ws. w \<noteq> [] \<and> (\<forall>c\<in>set w. \<not> py_isspace c) \<Longrightarrow>
   split_whitespace (join_str [32] ws) = ws"
proof (induction ws)
  case Nil
  then show ?case by simp
next
  case (Cons w ws)
  show ?case
  proof (cases ws)
    case Nil
    with Cons.prems show ?thesis by (simp add: split_whitespace_single)
  next
    case (Cons v vs)
    have "split_whitespace (w @ 32 # join_str [32] ws) = w # split_whitespace (join_str [32] ws)"
      using Cons.prems by (intro split_whitespace_then_space) simp_all
    with Cons Cons.IH Cons.prems show ?thesis by simp
  qed
qed

text \<open>
  Claim C9. Normalizing a normalized text changes nothing: the words of
  \<open>clean_text s\<close> hold no whitespace and are one space apart, so splitting it
  gives the same words back.
\<close>

theorem clean_text_idempotent: "clean_text (clean_text s) = clean_text s"
  unfolding clean_text_def
  by (simp add: split_whitespace_join split_whitespace_words)

section \<open>The first pass of the aggregator\<close>

lemmas prim_defs = bind_err_def py_get_def py_items_def py_subscript_def py_store_def py_append_def

lemma append_abstract:
  "append_at [''A: Abstract''] v (filled (Lst a) q s i e x y d) = Inr (filled (Lst (a @ [v])) q s i e x y d)"
  by (simp add: filled_def prim_defs)

lemma append_results:
  "append_at [''D: Results''] v (filled a q s i e x y (Lst d)) = Inr (filled a q s i e x y (Lst (d @ [v])))"
  by (simp add: filled_def prim_defs)

lemma append_inclusion:
  "append_at [''B: Methods'', ''3. Inclusion and Exclusion Criteria'', ''Inclusion''] v
     (filled a q s (Lst i) e x y d) = Inr (filled a q s (Lst (i @ [v])) e x y d)"
  by (simp add: filled_def prim_defs)

lemma append_exclusion:
  "append_at [''B: Methods'', ''3. Inclusion and Exclusion Criteria'', ''Exclusion''] v
     (filled a q s i (Lst e) x y d) = Inr (filled a q s i (Lst (e @ [v])) x y d)"
  by (simp add: filled_def prim_defs)

lemma append_question:
  "append_at [''B: Methods'', ''1. Research Question''] v
     (filled a (Lst q) s i e x y d) = Inr (filled a (Lst (q @ [v])) s i e x y d)"
  by (simp add: filled_def prim_defs)

lemma append_strategy:
  "append_at [''B: Methods'', ''2. Search Strategy''] v
     (filled a q (Lst s) i e x y d) = Inr (filled a q (Lst (s @ [v])) i e x y d)"
  by (simp add: filled_def prim_defs)

lemma append_extraction:
  "append_at [''B: Methods'', ''5. Data Extraction''] v
     (filled a q s i e (Lst x) y d) = Inr (filled a q s i e (Lst (x @ [v])) y d)"
  by (simp add: filled_def prim_defs)

lemma append_synthesis:
  "append_at [''B: Methods'', ''6. Data Synthesis''] v
     (filled a q s i e x (Lst y) d) = Inr (filled a q s i e x (Lst (y @ [v])) d)"
  by (simp add: filled_def prim_defs)

lemma collect_question:
  "collect_methods_item (filled a (Lst q) s i e x y d) (''1. Research Question'', v)
     = Inr (filled a (Lst (q @ [v])) s i e x y d)"
  unfolding collect_methods_item_def by (simp add: append_question del: append_at.simps)

lemma collect_strategy:
  "collect_methods_item (filled a q (Lst s) i e x y d) (''2. Search Strategy'', v)
     = Inr (filled a q (Lst (s @ [v])) i e x y d)"
  unfolding collect_methods_item_def by (simp add: append_strategy del: append_at.simps)

lemma collect_extraction:
  "collect_methods_item (filled a q s i e (Lst x) y d) (''5. Data Extraction'', v)
     = Inr (filled a q s i e (Lst (x @ [v])) y d)"
  unfolding collect_methods_item_def by (simp add: append_extraction del: append_at.simps)

lemma collect_synthesis:
  "collect_methods_item (filled a q s i e x (Lst y) d) (''6. Data Synthesis'', v)
     = Inr (filled a q s i e x (Lst (y @ [v])) d)"
  unfolding collect_methods_item_def by (simp add: append_synthesis del: append_at.simps)

lemma collect_criteria:
  "collect_methods_item (filled a q s (Lst i) (Lst e) x y d)
      (''3. Inclusion and Exclusion Criteria'', Dict cs)
     = Inr (filled a q s (Lst (i @ [dict_get (Dict cs) ''Inclusion'' (Str [])]))
              (Lst (e @ [dict_get (Dict cs) ''Exclusion'' (Str [])])) x y d)"
  unfolding collect_methods_item_def
  by (simp add: py_get_def dict_get_def bind_err_def append_inclusion append_exclusion
        del: append_at.simps)

lemma values_under_Nil: "values_under k [] = []"
  by (simp add: values_under_def)

lemma values_under_Cons:
  "values_under k ((k', v) # items) =
     (if k' = k then v # values_under k items else values_under k items)"
  by (simp add: values_under_def)

lemma plain_method_keys_cases:
  assumes "k \<in> set plain_method_keys"
  shows "k = ''1. Research Question'' \<or> k = ''2. Search Strategy''
      \<or> k = ''5. Data Extraction'' \<or> k = ''6. Data Synthesis''"
  using assms unfolding plain_method_keys_def by simp

lemma collectable_item_cases:
  assumes "collectable_item (k, v)"
  shows "k = ''1. Research Question'' \<or> k = ''2. Search Strategy''
      \<or> (k = ''3. Inclusion and Exclusion Criteria'' \<and> (\<exists>cs. v = Dict cs))
      \<or> k = ''5. Data Extraction'' \<or> k = ''6. Data Synthesis''"
proof (cases "k = ''3. Inclusion and Exclusion Criteria''")
  case True
  with assms have "\<exists>cs. v = Dict cs"
    unfolding collectable_item_def fst_conv snd_conv by (cases v) simp_all
  with True show ?thesis by (intro disjI2 disjI1 conjI)
next
  case False
  with assms have "k \<in> set plain_method_keys"
    unfolding collectable_item_def fst_conv by simp
  from plain_method_keys_cases [OF this] show ?thesis
    by (elim disjE) (erule disjI1 disjI2 [OF disjI1] disjI2 [OF disjI2 [OF disjI2 [OF disjI1]]]
        disjI2 [OF disjI2 [OF disjI2 [OF disjI2]]])+
qed

lemma collect_methods_items:
  "list_all collectable_item items \<Longrightarrow>
   fold_err collect_methods_item items
     (filled a (Lst q) (Lst s) (Lst i) (Lst e) (Lst x) (Lst y) d)
   = Inr (filled a
       (Lst (q @ values_under ''1. Research Question'' items))
       (Lst (s @ values_under ''2. Search Strategy'' items))
       (Lst (i @ map (\<lambda>sub. dict_get sub ''Inclusion'' (Str []))
                   (values_under ''3. Inclusion and Exclusion Criteria'' items)))
       (Lst (e @ map (\<lambda>sub. dict_get sub ''Exclusion'' (Str []))
                   (values_under ''3. Inclusion and Exclusion Criteria'' items)))
       (Lst (x @ values_under ''5. Data Extraction'' items))
       (Lst (y @ values_under ''6. Data Synthesis'' items))
       d)"
proof (induction items arbitrary: q s i e x y)
  case Nil
  then show ?case by (simp add: values_under_Nil)
next
  case (Cons item items)
  obtain k v where item: "item = (k, v)" by (cases item)
  from Cons.prems item have ok: "collectable_item (k, v)" and rest: "list_all collectable_item items"
    by simp_all
  note IH = Cons.IH [OF rest]
  from collectable_item_cases [OF ok] show ?case
  proof (elim disjE conjE exE)
    assume k: "k = ''1. Research Question''"
    show ?thesis
      unfolding item k fold_err.simps collect_question bind_err_def sum.case IH
      by (simp add: values_under_Cons)
  next
    assume k: "k = ''2. Search Strategy''"
    show ?thesis
      unfolding item k fold_err.simps collect_strategy bind_err_def sum.case IH
      by (simp add: values_under_Cons)
  next
    fix cs assume k: "k = ''3. Inclusion and Exclusion Criteria''" and v: "v = Dict cs"
    show ?thesis
      unfolding item k v fold_err.simps collect_criteria bind_err_def sum.case IH
      by (simp add: values_under_Cons)
  next
    assume k: "k = ''5. Data Extraction''"
    show ?thesis
      unfolding item k fold_err.simps collect_extraction bind_err_def sum.case IH
      by (simp add: values_under_Cons)
  next
    assume k: "k = ''6. Data Synthesis''"
    show ?thesis
      unfolding item k fold_err.simps collect_synthesis bind_err_def sum.case IH
      by (simp add: values_under_Cons)
  qed
qed

lemma py_get_Dict: "py_get (Dict kvs) k d = Inr (dict_get (Dict kvs) k d)"
  by (simp add: py_get_def dict_get_def)

lemma collectable_Dict:
  assumes "collectable r"
  shows "\<exists>kvs items. r = Dict kvs \<and> dict_get r ''B: Methods'' (Dict []) = Dict items
           \<and> methods_items_of r = items \<and> list_all collectable_item items"
proof (cases r)
  case (Dict kvs)
  show ?thesis
  proof (cases "dict_get r ''B: Methods'' (Dict [])")
    case (Dict items)
    with assms \<open>r = Dict kvs\<close> show ?thesis
      by (simp add: collectable_def methods_items_of_def)
  next
    case (Str x)
    with assms \<open>r = Dict kvs\<close> show ?thesis by (simp add: collectable_def)
  next
    case (Lst x)
    with assms \<open>r = Dict kvs\<close> show ?thesis by (simp add: collectable_def)
  qed
next
  case (Str x)
  with assms show ?thesis by (simp add: collectable_def)
next
  case (Lst x)
  with assms show ?thesis by (simp add: collectable_def)
qed

lemma collect_review_filled:
  assumes "collectable r"
  shows "collect_review (filled (Lst a) (Lst q) (Lst s) (Lst i) (Lst e) (Lst x) (Lst y) (Lst d)) r
    = Inr (filled
        (Lst (a @ contribution r [''A: Abstract'']))
        (Lst (q @ contribution r [''B: Methods'', ''1. Research Question'']))
        (Lst (s @ contribution r [''B: Methods'', ''2. Search Strategy'']))
        (Lst (i @ contribution r [''B: Methods'', ''3. Inclusion and Exclusion Criteria'', ''Inclusion'']))
        (Lst (e @ contribution r [''B: Methods'', ''3. Inclusion and Exclusion Criteria'', ''Exclusion'']))
        (Lst (x @ contribution r [''B: Methods'', ''5. Data Extraction'']))
        (Lst (y @ contribution r [''B: Methods'', ''6. Data Synthesis'']))
        (Lst (d @ contribution r [''D: Results''])))"
proof -
  from collectable_Dict [OF assms] obtain kvs items where
    r: "r = Dict kvs" and m: "dict_get (Dict kvs) ''B: Methods'' (Dict []) = Dict items"
    and mi: "methods_items_of (Dict kvs) = items" and ok: "list_all collectable_item items"
    by auto
  show ?thesis
    unfolding collect_review_def r py_get_Dict bind_err_def sum.case append_abstract m
      py_items_def pyval.case collect_methods_items [OF ok] append_results
      contribution.simps mi
    by (rule refl)
qed

lemma gathered_Nil: "gathered [] p = []"
  by (simp add: gathered_def)

lemma gathered_Cons: "gathered (r # rs) p = contribution r p @ gathered rs p"
  by (simp add: gathered_def)

lemma collect_reviews_filled:
  "list_all collectable rs \<Longrightarrow>
   fold_err collect_review rs
     (filled (Lst a) (Lst q) (Lst s) (Lst i) (Lst e) (Lst x) (Lst y) (Lst d))
    = Inr (filled
        (Lst (a @ gathered rs [''A: Abstract'']))
        (Lst (q @ gathered rs [''B: Methods'', ''1. Research Question'']))
        (Lst (s @ gathered rs [''B: Methods'', ''2. Search Strategy'']))
        (Lst (i @ gathered rs [''B: Methods'', ''3. Inclusion and Exclusion Criteria'', ''Inclusion'']))
        (Lst (e @ gathered rs [''B: Methods'', ''3. Inclusion and Exclusion Criteria'', ''Exclusion'']))
        (Lst (x @ gathered rs [''B: Methods'', ''5. Data Extraction'']))
        (Lst (y @ gathered rs [''B: Methods'', ''6. Data Synthesis'']))
        (Lst (d @ gathered rs [''D: Results''])))"
proof (induction rs arbitrary: a q s i e x y d)
  case Nil
  show ?case unfolding fold_err.simps gathered_Nil append_Nil2 by (rule refl)
next
  case (Cons r rs)
  from Cons.prems have r: "collectable r" and rest: "list_all collectable rs" by simp_all
  show ?case
    unfolding fold_err.simps collect_review_filled [OF r] bind_err_def sum.case
      Cons.IH [OF rest] gathered_Cons append_assoc
    by (rule refl)
qed

section \<open>The second pass of the aggregator\<close>

lemma aggregated_init_filled:
  "aggregated_init = filled (Lst []) (Lst []) (Lst []) (Lst []) (Lst []) (Lst []) (Lst []) (Lst [])"
  unfolding aggregated_init_def filled_def by (rule refl)

lemma the_strs_Str: "the_strs (map Str xs) = Inr xs"
  by (induction xs) (simp_all add: bind_err_def)

lemma join_dedupe_Str:
  "join_dedupe ord (Lst (map Str xs)) = Inr (Str (remove_repeated_sentences ord (join_str '' '' xs)))"
  by (simp add: join_dedupe_def py_join_def the_strs_Str bind_err_def)

lemma finish_aggregated_filled:
  "finish_aggregated ord
     (filled (Lst (map Str a)) (Lst (map Str q)) (Lst (map Str s)) (Lst (map Str i))
             (Lst (map Str e)) (Lst (map Str x)) (Lst (map Str y)) (Lst (map Str d)))
   = Inr (filled
       (Str (remove_repeated_sentences ord (join_str '' '' a)))
       (Str (remove_repeated_sentences ord (join_str '' '' q)))
       (Str (remove_repeated_sentences ord (join_str '' '' s)))
       (Str (remove_repeated_sentences ord (join_str '' '' i)))
       (Str (remove_repeated_sentences ord (join_str '' '' e)))
       (Str (remove_repeated_sentences ord (join_str '' '' x)))
       (Str (remove_repeated_sentences ord (join_str '' '' y)))
       (Str (remove_repeated_sentences ord (join_str '' '' d))))"
  unfolding finish_aggregated_def finish_methods_item_def filled_def
  by (simp add: bind_err_def py_subscript_def py_store_def py_items_def join_dedupe_Str)

section \<open>Reviews of the shape of the schema\<close>

lemma shaped_like_StrD: "shaped_like (Str p) v \<Longrightarrow> \<exists>s. v = Str s"
  by (cases v) simp_all

lemma shaped_like_DictD:
  assumes "shaped_like (Dict sch) v"
  shows "\<exists>kvs. v = Dict kvs \<and> distinct (map fst kvs) \<and> set (map fst kvs) = set (map fst sch)
           \<and> (\<forall>k sub. (k, sub) \<in> set sch \<longrightarrow> (\<exists>c. map_of kvs k = Some c \<and> shaped_like sub c))"
proof (cases v)
  case (Dict kvs)
  with assms have 1: "distinct (map fst kvs)" and 2: "set (map fst kvs) = set (map fst sch)"
    and 3: "\<forall>(k, sub) \<in> set sch. case map_of kvs k of Some c \<Rightarrow> shaped_like sub c | None \<Rightarrow> False"
    by simp_all
  have "\<exists>c. map_of kvs k = Some c \<and> shaped_like sub c" if "(k, sub) \<in> set sch" for k sub
    using 3 that by (cases "map_of kvs k") auto
  with Dict 1 2 show ?thesis by blast
next
  case (Str x)
  with assms show ?thesis by simp
next
  case (Lst x)
  with assms show ?thesis by simp
qed

lemma values_under_distinct:
  "distinct (map fst items) \<Longrightarrow> map_of items k = Some v \<Longrightarrow> values_under k items = [v]"
proof (induction items)
  case Nil
  then show ?case by simp
next
  case (Cons item items)
  obtain k' v' where item: "item = (k', v')" by (cases item)
  show ?case
  proof (cases "k' = k")
    case True
    with Cons.prems item have "v' = v" by simp
    moreover have "values_under k items = []"
      using Cons.prems(1) item True
      by (auto simp: values_under_def filter_empty_conv image_iff)
    ultimately show ?thesis using item True by (simp add: values_under_Cons)
  next
    case False
    with Cons item show ?thesis by (simp add: values_under_Cons)
  qed
qed

lemma shaped_like_entry:
  assumes "shaped_like (Dict sch) r" and "(k, sub) \<in> set sch"
  shows "\<exists>kvs c. r = Dict kvs \<and> distinct (map fst kvs) \<and> map_of kvs k = Some c \<and> shaped_like sub c"
  using shaped_like_DictD [OF assms(1)] assms(2) by blast

lemma shaped_like_item:
  assumes "shaped_like (Dict sch) (Dict kvs)" and "(k, v) \<in> set kvs"
  shows "\<exists>sub. (k, sub) \<in> set sch \<and> shaped_like sub v"
proof -
  from shaped_like_DictD [OF assms(1)] have d: "distinct (map fst kvs)"
    and keys: "set (map fst kvs) = set (map fst sch)"
    and each: "\<And>k sub. (k, sub) \<in> set sch \<Longrightarrow> \<exists>c. map_of kvs k = Some c \<and> shaped_like sub c"
    by auto
  from assms(2) have "k \<in> set (map fst kvs)" by (force simp: image_iff)
  with keys obtain sub where sub: "(k, sub) \<in> set sch" by (auto simp: image_iff)
  from each [OF sub] obtain c where c: "map_of kvs k = Some c" "shaped_like sub c" by blast
  from d assms(2) have "map_of kvs k = Some v" by simp
  with c sub show ?thesis by auto
qed

lemma leaf_under_key:
  assumes "shaped_like (Dict sch) r" and "(k, Str p) \<in> set sch"
  shows "dict_get r k d = Str (leaf_str r [k])"
proof -
  from shaped_like_entry [OF assms] obtain kvs c where
    r: "r = Dict kvs" and c: "map_of kvs k = Some c" "shaped_like (Str p) c" by blast
  from shaped_like_StrD [OF c(2)] obtain s where "c = Str s" by blast
  with r c show ?thesis by (simp add: dict_get_def leaf_str_def)
qed

lemma branch_under_key:
  assumes "shaped_like (Dict sch) r" and "(k, Dict sub) \<in> set sch"
  shows "\<exists>kvs. dict_get r k d = Dict kvs \<and> shaped_like (Dict sub) (Dict kvs)
           \<and> (\<forall>ks. leaf_str r (k # ks) = leaf_str (Dict kvs) ks)"
proof -
  from shaped_like_entry [OF assms] obtain rs c where
    r: "r = Dict rs" and c: "map_of rs k = Some c" "shaped_like (Dict sub) c" by blast
  from shaped_like_DictD [OF c(2)] obtain kvs where "c = Dict kvs" by blast
  with r c show ?thesis by (simp add: dict_get_def leaf_str_def)
qed

lemma leaf_among_items:
  assumes "shaped_like (Dict sch) (Dict items)" and "(k, Str p) \<in> set sch"
  shows "values_under k items = [Str (leaf_str (Dict items) [k])]"
proof -
  from shaped_like_entry [OF assms] obtain c where
    d: "distinct (map fst items)" and c: "map_of items k = Some c" "shaped_like (Str p) c" by blast
  from shaped_like_StrD [OF c(2)] obtain s where "c = Str s" by blast
  with c d show ?thesis by (simp add: values_under_distinct leaf_str_def)
qed

lemma branch_among_items:
  assumes "shaped_like (Dict sch) (Dict items)" and "(k, Dict sub) \<in> set sch"
  shows "\<exists>kvs. values_under k items = [Dict kvs] \<and> shaped_like (Dict sub) (Dict kvs)
           \<and> (\<forall>ks. leaf_str (Dict items) (k # ks) = leaf_str (Dict kvs) ks)"
proof -
  from shaped_like_entry [OF assms] obtain c where
    d: "distinct (map fst items)" and c: "map_of items k = Some c" "shaped_like (Dict sub) c" by blast
  from shaped_like_DictD [OF c(2)] obtain kvs where "c = Dict kvs" by blast
  with c d show ?thesis by (simp add: values_under_distinct leaf_str_def)
qed

lemma collectable_items_shaped:
  assumes "shaped_like (Dict sub) (Dict items)" and "list_all collectable_item sub"
  shows "list_all collectable_item items"
  unfolding list_all_iff
proof
  fix item assume item: "item \<in> set items"
  obtain k v where kv: "item = (k, v)" by (cases item)
  from shaped_like_item [OF assms(1)] item kv obtain s where
    s: "(k, s) \<in> set sub" "shaped_like s v" by blast
  from assms(2) s(1) have cs: "collectable_item (k, s)" by (simp add: list_all_iff)
  have "collectable_item (k, v)"
  proof (cases "k = ''3. Inclusion and Exclusion Criteria''")
    case True
    with cs have "\<exists>x. s = Dict x"
      unfolding collectable_item_def fst_conv snd_conv by (cases s) simp_all
    then obtain x where "s = Dict x" ..
    with s(2) have "shaped_like (Dict x) v" by simp
    from shaped_like_DictD [OF this] obtain kvs where "v = Dict kvs" by blast
    with True show ?thesis by (simp add: collectable_item_def)
  next
    case False
    with cs show ?thesis by (simp add: collectable_item_def)
  qed
  with kv show "collectable_item item" by simp
qed

lemma methods_of_shaped:
  assumes "shaped_like (Dict sch) r" and "(''B: Methods'', Dict ms) \<in> set sch"
  shows "\<exists>items. methods_items_of r = items
          \<and> dict_get r ''B: Methods'' (Dict []) = Dict items
          \<and> shaped_like (Dict ms) (Dict items)
          \<and> (\<forall>ks. leaf_str r (''B: Methods'' # ks) = leaf_str (Dict items) ks)"
proof -
  from branch_under_key [OF assms, of "Dict []"] obtain items where
    items: "dict_get r ''B: Methods'' (Dict []) = Dict items"
    and shaped: "shaped_like (Dict ms) (Dict items)"
    and under: "\<forall>ks. leaf_str r (''B: Methods'' # ks) = leaf_str (Dict items) ks"
    by (elim exE conjE)
  have mi: "methods_items_of r = items" unfolding methods_items_of_def items by simp
  show ?thesis
    by (intro exI conjI) (rule mi items shaped under)+
qed

lemma contribution_top:
  assumes "shaped_like (Dict sch) r" and "(k, Str p) \<in> set sch"
  shows "contribution r [k] = [Str (leaf_str r [k])]"
  unfolding contribution.simps leaf_under_key [OF assms] by (rule refl)

lemma contribution_plain:
  assumes "shaped_like (Dict sch) r" and "(''B: Methods'', Dict ms) \<in> set sch"
    and "(k, Str p) \<in> set ms"
  shows "contribution r [''B: Methods'', k] = [Str (leaf_str r [''B: Methods'', k])]"
proof -
  from methods_of_shaped [OF assms(1,2)] obtain items where
    mi: "methods_items_of r = items"
    and shaped: "shaped_like (Dict ms) (Dict items)"
    and under: "\<forall>ks. leaf_str r (''B: Methods'' # ks) = leaf_str (Dict items) ks"
    by (elim exE conjE)
  from under have u: "leaf_str r [''B: Methods'', k] = leaf_str (Dict items) [k]" by (rule spec)
  show ?thesis
    unfolding contribution.simps mi leaf_among_items [OF shaped assms(3)] u by (rule refl)
qed

lemma contribution_nested:
  assumes "shaped_like (Dict sch) r" and "(''B: Methods'', Dict ms) \<in> set sch"
    and "(c, Dict cs) \<in> set ms" and "(k, Str p) \<in> set cs"
  shows "contribution r [''B: Methods'', c, k] = [Str (leaf_str r [''B: Methods'', c, k])]"
proof -
  from methods_of_shaped [OF assms(1,2)] obtain items where
    mi: "methods_items_of r = items"
    and shaped: "shaped_like (Dict ms) (Dict items)"
    and under: "\<forall>ks. leaf_str r (''B: Methods'' # ks) = leaf_str (Dict items) ks"
    by (elim exE conjE)
  from branch_among_items [OF shaped assms(3)] obtain cv where
    cv: "values_under c items = [Dict cv]"
    and cshaped: "shaped_like (Dict cs) (Dict cv)"
    and cunder: "\<forall>ks. leaf_str (Dict items) (c # ks) = leaf_str (Dict cv) ks"
    by (elim exE conjE)
  from under have u: "leaf_str r [''B: Methods'', c, k] = leaf_str (Dict items) [c, k]"
    by (rule spec)
  from cunder have cu: "leaf_str (Dict items) [c, k] = leaf_str (Dict cv) [k]" by (rule spec)
  show ?thesis
    unfolding contribution.simps mi cv list.map leaf_under_key [OF cshaped assms(4)] u cu
    by (rule refl)
qed

lemma collectable_shaped:
  assumes "shaped_like (Dict sch) r" and "(''B: Methods'', Dict ms) \<in> set sch"
    and "list_all collectable_item ms"
  shows "collectable r"
proof -
  from methods_of_shaped [OF assms(1,2)] obtain items where
    items: "dict_get r ''B: Methods'' (Dict []) = Dict items"
    and shaped: "shaped_like (Dict ms) (Dict items)"
    by (elim exE conjE)
  from shaped_like_DictD [OF assms(1)] obtain kvs where r: "r = Dict kvs" by (elim exE conjE)
  have ok: "list_all collectable_item items"
    by (rule collectable_items_shaped [OF shaped assms(3)])
  have "collectable (Dict kvs)"
    unfolding collectable_def pyval.case items [unfolded r] by (rule ok)
  then show ?thesis unfolding r .
qed

lemma sections_entries:
  "\<exists>ms cs pa pd pq ps px py pi pe.
       (''A: Abstract'', Str pa) \<in> set sections
     \<and> (''D: Results'', Str pd) \<in> set sections
     \<and> (''B: Methods'', Dict ms) \<in> set sections
     \<and> (''1. Research Question'', Str pq) \<in> set ms
     \<and> (''2. Search Strategy'', Str ps) \<in> set ms
     \<and> (''5. Data Extraction'', Str px) \<in> set ms
     \<and> (''6. Data Synthesis'', Str py) \<in> set ms
     \<and> (''3. Inclusion and Exclusion Criteria'', Dict cs) \<in> set ms
     \<and> (''Inclusion'', Str pi) \<in> set cs
     \<and> (''Exclusion'', Str pe) \<in> set cs
     \<and> list_all collectable_item ms"
  by (simp add: sections_def collectable_item_def plain_method_keys_def)

lemma valid_review_contributions:
  assumes "valid_review r"
  shows "collectable r"
    and "contribution r [''A: Abstract''] = [Str (leaf_str r [''A: Abstract''])]"
    and "contribution r [''B: Methods'', ''1. Research Question''] = [Str (leaf_str r [''B: Methods'', ''1. Research Question''])]"
    and "contribution r [''B: Methods'', ''2. Search Strategy''] = [Str (leaf_str r [''B: Methods'', ''2. Search Strategy''])]"
    and "contribution r [''B: Methods'', ''3. Inclusion and Exclusion Criteria'', ''Inclusion''] = [Str (leaf_str r [''B: Methods'', ''3. Inclusion and Exclusion Criteria'', ''Inclusion''])]"
    and "contribution r [''B: Methods'', ''3. Inclusion and Exclusion Criteria'', ''Exclusion''] = [Str (leaf_str r [''B: Methods'', ''3. Inclusion and Exclusion Criteria'', ''Exclusion''])]"
    and "contribution r [''B: Methods'', ''5. Data Extraction''] = [Str (leaf_str r [''B: Methods'', ''5. Data Extraction''])]"
    and "contribution r [''B: Methods'', ''6. Data Synthesis''] = [Str (leaf_str r [''B: Methods'', ''6. Data Synthesis''])]"
    and "contribution r [''D: Results''] = [Str (leaf_str r [''D: Results''])]"
proof -
  from assms have sl: "shaped_like (Dict sections) r" by (simp add: valid_review_def)
  from sections_entries obtain ms cs pa pd pq ps px py pi pe where
    pa: "(''A: Abstract'', Str pa) \<in> set sections"
    and pd: "(''D: Results'', Str pd) \<in> set sections"
    and ms: "(''B: Methods'', Dict ms) \<in> set sections"
    and pq: "(''1. Research Question'', Str pq) \<in> set ms"
    and ps: "(''2. Search Strategy'', Str ps) \<in> set ms"
    and px: "(''5. Data Extraction'', Str px) \<in> set ms"
    and py: "(''6. Data Synthesis'', Str py) \<in> set ms"
    and cs: "(''3. Inclusion and Exclusion Criteria'', Dict cs) \<in> set ms"
    and pi: "(''Inclusion'', Str pi) \<in> set cs"
    and pe: "(''Exclusion'', Str pe) \<in> set cs"
    and ok: "list_all collectable_item ms"
    by (elim exE conjE)
  show "collectable r" by (rule collectable_shaped [OF sl ms ok])
  show "contribution r [''A: Abstract''] = [Str (leaf_str r [''A: Abstract''])]"
    by (rule contribution_top [OF sl pa])
  show "contribution r [''D: Results''] = [Str (leaf_str r [''D: Results''])]"
    by (rule contribution_top [OF sl pd])
  show "contribution r [''B: Methods'', ''1. Research Question'']
      = [Str (leaf_str r [''B: Methods'', ''1. Research Question''])]"
    by (rule contribution_plain [OF sl ms pq])
  show "contribution r [''B: Methods'', ''2. Search Strategy'']
      = [Str (leaf_str r [''B: Methods'', ''2. Search Strategy''])]"
    by (rule contribution_plain [OF sl ms ps])
  show "contribution r [''B: Methods'', ''5. Data Extraction'']
      = [Str (leaf_str r [''B: Methods'', ''5. Data Extraction''])]"
    by (rule contribution_plain [OF sl ms px])
  show "contribution r [''B: Methods'', ''6. Data Synthesis'']
      = [Str (leaf_str r [''B: Methods'', ''6. Data Synthesis''])]"
    by (rule contribution_plain [OF sl ms py])
  show "contribution r [''B: Methods'', ''3. Inclusion and Exclusion Criteria'', ''Inclusion'']
      = [Str (leaf_str r [''B: Methods'', ''3. Inclusion and Exclusion Criteria'', ''Inclusion''])]"
    by (rule contribution_nested [OF sl ms cs pi])
  show "contribution r [''B: Methods'', ''3. Inclusion and Exclusion Criteria'', ''Exclusion'']
      = [Str (leaf_str r [''B: Methods'', ''3. Inclusion and Exclusion Criteria'', ''Exclusion''])]"
    by (rule contribution_nested [OF sl ms cs pe])
qed

lemma gathered_leaves:
  "(\<And>r. r \<in> set rs \<Longrightarrow> contribution r p = [Str (leaf_str r p)]) \<Longrightarrow>
   gathered rs p = map Str (map (\<lambda>r. leaf_str r p) rs)"
  by (induction rs) (simp_all add: gathered_Nil gathered_Cons)

lemma aggregate_reviews_valid:
  assumes "list_all valid_review rs"
  shows "aggregate_reviews ord rs =
           Inr (review_tree (\<lambda>p. Str (remove_repeated_sentences ord
                  (join_str '' '' (map (\<lambda>r. leaf_str r p) rs)))))"
proof -
  have v: "valid_review r" if "r \<in> set rs" for r
    using assms that by (simp add: list_all_iff)
  have c: "list_all collectable rs"
    unfolding list_all_iff using v valid_review_contributions(1) by blast
  have g1: "gathered rs [''A: Abstract'']
      = map Str (map (\<lambda>r. leaf_str r [''A: Abstract'']) rs)"
    by (rule gathered_leaves) (rule valid_review_contributions(2) [OF v])
  have g2: "gathered rs [''B: Methods'', ''1. Research Question'']
      = map Str (map (\<lambda>r. leaf_str r [''B: Methods'', ''1. Research Question'']) rs)"
    by (rule gathered_leaves) (rule valid_review_contributions(3) [OF v])
  have g3: "gathered rs [''B: Methods'', ''2. Search Strategy'']
      = map Str (map (\<lambda>r. leaf_str r [''B: Methods'', ''2. Search Strategy'']) rs)"
    by (rule gathered_leaves) (rule valid_review_contributions(4) [OF v])
  have g4: "gathered rs [''B: Methods'', ''3. Inclusion and Exclusion Criteria'', ''Inclusion'']
      = map Str (map (\<lambda>r. leaf_str r [''B: Methods'', ''3. Inclusion and Exclusion Criteria'', ''Inclusion'']) rs)"
    by (rule gathered_leaves) (rule valid_review_contributions(5) [OF v])
  have g5: "gathered rs [''B: Methods'', ''3. Inclusion and Exclusion Criteria'', ''Exclusion'']
      = map Str (map (\<lambda>r. leaf_str r [''B: Methods'', ''3. Inclusion and Exclusion Criteria'', ''Exclusion'']) rs)"
    by (rule gathered_leaves) (rule valid_review_contributions(6) [OF v])
  have g6: "gathered rs [''B: Methods'', ''5. Data Extraction'']
      = map Str (map (\<lambda>r. leaf_str r [''B: Methods'', ''5. Data Extraction'']) rs)"
    by (rule gathered_leaves) (rule valid_review_contributions(7) [OF v])
  have g7: "gathered rs [''B: Methods'', ''6. Data Synthesis'']
      = map Str (map (\<lambda>r. leaf_str r [''B: Methods'', ''6. Data Synthesis'']) rs)"
    by (rule gathered_leaves) (rule valid_review_contributions(8) [OF v])
  have g8: "gathered rs [''D: Results'']
      = map Str (map (\<lambda>r. leaf_str r [''D: Results'']) rs)"
    by (rule gathered_leaves) (rule valid_review_contributions(9) [OF v])
  show ?thesis
    unfolding aggregate_reviews_def aggregated_init_filled collect_reviews_filled [OF c]
      bind_err_def sum.case append_Nil g1 g2 g3 g4 g5 g6 g7 g8 finish_aggregated_filled
      review_tree_def
    by (rule refl)
qed

section \<open>Properties of the aggregator\<close>

lemma dedupe_one_piece:
  "split_period_space s = [p] \<Longrightarrow> remove_repeated_sentences ord s = p"
  by (simp add: remove_repeated_sentences_def set_iter_single)

lemma dedupe_empty: "remove_repeated_sentences ord [] = []"
  by (simp add: dedupe_one_piece)

lemma aggregate_reviews_gathered:
  assumes c: "list_all collectable rs"
    and g_abstract: "gathered rs [''A: Abstract''] = map Str ta"
    and g_question: "gathered rs [''B: Methods'', ''1. Research Question''] = map Str tq"
    and g_strategy: "gathered rs [''B: Methods'', ''2. Search Strategy''] = map Str ts"
    and g_inclusion: "gathered rs [''B: Methods'', ''3. Inclusion and Exclusion Criteria'', ''Inclusion''] = map Str ti"
    and g_exclusion: "gathered rs [''B: Methods'', ''3. Inclusion and Exclusion Criteria'', ''Exclusion''] = map Str te"
    and g_extraction: "gathered rs [''B: Methods'', ''5. Data Extraction''] = map Str tx"
    and g_synthesis: "gathered rs [''B: Methods'', ''6. Data Synthesis''] = map Str ty"
    and g_results: "gathered rs [''D: Results''] = map Str td"
  shows "aggregate_reviews ord rs =
     Inr (filled
       (Str (remove_repeated_sentences ord (join_str '' '' ta)))
       (Str (remove_repeated_sentences ord (join_str '' '' tq)))
       (Str (remove_repeated_sentences ord (join_str '' '' ts)))
       (Str (remove_repeated_sentences ord (join_str '' '' ti)))
       (Str (remove_repeated_sentences ord (join_str '' '' te)))
       (Str (remove_repeated_sentences ord (join_str '' '' tx)))
       (Str (remove_repeated_sentences ord (join_str '' '' ty)))
       (Str (remove_repeated_sentences ord (join_str '' '' td))))"
  unfolding aggregate_reviews_def aggregated_init_filled collect_reviews_filled [OF c]
    bind_err_def sum.case append_Nil g_abstract g_question g_strategy g_inclusion g_exclusion
    g_extraction g_synthesis g_results finish_aggregated_filled
  by (rule refl)

lemma valid_review_filled:
  "valid_review (filled (Str a) (Str q) (Str s) (Str i) (Str e) (Str x) (Str y) (Str d))"
  by (simp add: valid_review_def sections_def filled_def)

lemma leaf_str_filled_abstract:
  "leaf_str (filled (Str a) (Str q) (Str s) (Str i) (Str e) (Str x) (Str y) (Str d)) [''A: Abstract''] = a"
  by (simp add: leaf_str_def filled_def)

lemma leaf_str_filled_question:
  "leaf_str (filled (Str a) (Str q) (Str s) (Str i) (Str e) (Str x) (Str y) (Str d)) [''B: Methods'', ''1. Research Question''] = q"
  by (simp add: leaf_str_def filled_def)

lemma leaf_str_filled_strategy:
  "leaf_str (filled (Str a) (Str q) (Str s) (Str i) (Str e) (Str x) (Str y) (Str d)) [''B: Methods'', ''2. Search Strategy''] = s"
  by (simp add: leaf_str_def filled_def)

lemma leaf_str_filled_inclusion:
  "leaf_str (filled (Str a) (Str q) (Str s) (Str i) (Str e) (Str x) (Str y) (Str d)) [''B: Methods'', ''3. Inclusion and Exclusion Criteria'', ''Inclusion''] = i"
  by (simp add: leaf_str_def filled_def)

lemma leaf_str_filled_exclusion:
  "leaf_str (filled (Str a) (Str q) (Str s) (Str i) (Str e) (Str x) (Str y) (Str d)) [''B: Methods'', ''3. Inclusion and Exclusion Criteria'', ''Exclusion''] = e"
  by (simp add: leaf_str_def filled_def)

lemma leaf_str_filled_extraction:
  "leaf_str (filled (Str a) (Str q) (Str s) (Str i) (Str e) (Str x) (Str y) (Str d)) [''B: Methods'', ''5. Data Extraction''] = x"
  by (simp add: leaf_str_def filled_def)

lemma leaf_str_filled_synthesis:
  "leaf_str (filled (Str a) (Str q) (Str s) (Str i) (Str e) (Str x) (Str y) (Str d)) [''B: Methods'', ''6. Data Synthesis''] = y"
  by (simp add: leaf_str_def filled_def)

lemma leaf_str_filled_results:
  "leaf_str (filled (Str a) (Str q) (Str s) (Str i) (Str e) (Str x) (Str y) (Str d)) [''D: Results''] = d"
  by (simp add: leaf_str_def filled_def)

lemmas leaf_str_filled = leaf_str_filled_abstract leaf_str_filled_question leaf_str_filled_strategy leaf_str_filled_inclusion leaf_str_filled_exclusion leaf_str_filled_extraction leaf_str_filled_synthesis leaf_str_filled_results

lemma collectable_lacking_question: "collectable review_lacking_question"
  by (simp add: collectable_def review_lacking_question_def dict_get_def collectable_item_def
        plain_method_keys_def)

text \<open>
  Claim C5. Aggregating no review at all returns the tree of the section schema with
  the empty string at every leaf, whatever the order in which sets are iterated.
\<close>

theorem aggregate_reviews_of_none:
  "aggregate_reviews ord [] =
     Inr (Dict [(''A: Abstract'', Str []),
                (''B: Methods'',
                   Dict [(''1. Research Question'', Str []),
                         (''2. Search Strategy'', Str []),
                         (''3. Inclusion and Exclusion Criteria'',
                            Dict [(''Inclusion'', Str []), (''Exclusion'', Str [])]),
                         (''5. Data Extraction'', Str []),
                         (''6. Data Synthesis'', Str [])]),
                (''D: Results'', Str [])])"
  using aggregate_reviews_valid [of "[]" ord]
  by (simp add: review_tree_def filled_def dedupe_empty)

text \<open>
  Claim C10. Aggregating one review is not the identity: for a review of the shape of
  the schema, every leaf of the result is the deduplicator applied to the leaf of the
  review. The instance after it has the abstract \<open>Same. Same\<close> and gets
  \<open>Same\<close> back.
\<close>

theorem aggregate_single_review:
  assumes "valid_review r"
  shows "aggregate_reviews ord [r] =
           Inr (review_tree (\<lambda>p. Str (remove_repeated_sentences ord (leaf_str r p))))"
  using aggregate_reviews_valid [of "[r]" ord] assms by simp

theorem aggregate_single_review_witness:
  "valid_review (filled (Str ''Same. Same'') (Str []) (Str []) (Str []) (Str [])
                        (Str []) (Str []) (Str []))
   \<and> aggregate_reviews insertion_order
        [filled (Str ''Same. Same'') (Str []) (Str []) (Str []) (Str [])
                (Str []) (Str []) (Str [])]
       = Inr (filled (Str ''Same'') (Str []) (Str []) (Str []) (Str [])
                (Str []) (Str []) (Str []))"
  using aggregate_single_review [OF valid_review_filled, of insertion_order
      "''Same. Same''" "[]" "[]" "[]" "[]" "[]" "[]" "[]"]
  by (simp add: valid_review_filled review_tree_def leaf_str_filled
        remove_repeated_sentences_def set_iter_insertion)

text \<open>
  Claim C1, as the program has it. For two reviews of the shape of the schema, a leaf
  of the aggregate of \<open>[A, B]\<close> is the deduplicator applied to the leaf of
  \<open>A\<close>, a space and the leaf of \<open>B\<close>, and a leaf of the aggregate of
  \<open>[B, A]\<close> is the deduplicator applied to the leaf of \<open>B\<close>, a space and
  the leaf of \<open>A\<close>: the reviews are joined in the order given.
\<close>

theorem aggregate_two_reviews:
  assumes "valid_review A" and "valid_review B"
  shows "aggregate_reviews ord [A, B] =
           Inr (review_tree (\<lambda>p. Str (remove_repeated_sentences ord
                  (leaf_str A p @ '' '' @ leaf_str B p))))
       \<and> aggregate_reviews ord [B, A] =
           Inr (review_tree (\<lambda>p. Str (remove_repeated_sentences ord
                  (leaf_str B p @ '' '' @ leaf_str A p))))"
  using aggregate_reviews_valid [of "[A, B]" ord] aggregate_reviews_valid [of "[B, A]" ord] assms
  by simp

theorem aggregate_two_reviews_witness:
  "valid_review (filled (Str ''x'') (Str []) (Str []) (Str []) (Str []) (Str []) (Str []) (Str []))
   \<and> valid_review (filled (Str ''y'') (Str []) (Str []) (Str []) (Str []) (Str []) (Str []) (Str []))
   \<and> aggregate_reviews insertion_order
        [filled (Str ''x'') (Str []) (Str []) (Str []) (Str []) (Str []) (Str []) (Str []),
         filled (Str ''y'') (Str []) (Str []) (Str []) (Str []) (Str []) (Str []) (Str [])]
       = Inr (filled (Str ''x y'') (Str '' '') (Str '' '') (Str '' '') (Str '' '')
                (Str '' '') (Str '' '') (Str '' ''))
   \<and> aggregate_reviews insertion_order
        [filled (Str ''y'') (Str []) (Str []) (Str []) (Str []) (Str []) (Str []) (Str []),
         filled (Str ''x'') (Str []) (Str []) (Str []) (Str []) (Str []) (Str []) (Str [])]
       = Inr (filled (Str ''y x'') (Str '' '') (Str '' '') (Str '' '') (Str '' '')
                (Str '' '') (Str '' '') (Str '' ''))"
  using aggregate_two_reviews [OF valid_review_filled valid_review_filled, of insertion_order
      "''x''" "[]" "[]" "[]" "[]" "[]" "[]" "[]" "''y''" "[]" "[]" "[]" "[]" "[]" "[]" "[]"]
  by (simp add: valid_review_filled review_tree_def leaf_str_filled
        remove_repeated_sentences_def set_iter_insertion)

text \<open>
  Claim C1 as stated fails: with the abstracts \<open>x\<close> and \<open>y\<close> the two
  orders give the abstracts \<open>x y\<close> and \<open>y x\<close>. Neither holds a period
  followed by a space, so each is one sentence and no iteration order is involved.
\<close>

theorem aggregate_depends_on_order:
  "aggregate_reviews insertion_order
     [filled (Str ''x'') (Str []) (Str []) (Str []) (Str []) (Str []) (Str []) (Str []),
      filled (Str ''y'') (Str []) (Str []) (Str []) (Str []) (Str []) (Str []) (Str [])]
   \<noteq> aggregate_reviews insertion_order
     [filled (Str ''y'') (Str []) (Str []) (Str []) (Str []) (Str []) (Str []) (Str []),
      filled (Str ''x'') (Str []) (Str []) (Str []) (Str []) (Str []) (Str []) (Str [])]"
proof -
  have xy: "aggregate_reviews insertion_order
     [filled (Str ''x'') (Str []) (Str []) (Str []) (Str []) (Str []) (Str []) (Str []),
      filled (Str ''y'') (Str []) (Str []) (Str []) (Str []) (Str []) (Str []) (Str [])]
     = Inr (filled (Str ''x y'') (Str '' '') (Str '' '') (Str '' '') (Str '' '')
                (Str '' '') (Str '' '') (Str '' ''))"
    by (simp add: aggregate_reviews_valid valid_review_filled review_tree_def leaf_str_filled
          remove_repeated_sentences_def set_iter_insertion)
  have yx: "aggregate_reviews insertion_order
     [filled (Str ''y'') (Str []) (Str []) (Str []) (Str []) (Str []) (Str []) (Str []),
      filled (Str ''x'') (Str []) (Str []) (Str []) (Str []) (Str []) (Str []) (Str [])]
     = Inr (filled (Str ''y x'') (Str '' '') (Str '' '') (Str '' '') (Str '' '')
                (Str '' '') (Str '' '') (Str '' ''))"
    by (simp add: aggregate_reviews_valid valid_review_filled review_tree_def leaf_str_filled
          remove_repeated_sentences_def set_iter_insertion)
  show ?thesis unfolding xy yx by (simp add: filled_def)
qed

text \<open>
  Claim C3 on the program. Two reviews whose abstract is \<open>Short abstract.\<close> are
  joined to \<open>Short abstract. Short abstract.\<close>, which splits into
  \<open>Short abstract\<close> and \<open>Short abstract.\<close>: two different sentences, so
  none is dropped. Whatever the iteration order, the aggregated abstract is one of the
  two texts below, never \<open>Short abstract.\<close>.
\<close>

theorem aggregate_identical_abstracts:
  "\<exists>t. aggregate_reviews ord
          [filled (Str ''Short abstract.'') (Str []) (Str []) (Str []) (Str [])
                  (Str []) (Str []) (Str []),
           filled (Str ''Short abstract.'') (Str []) (Str []) (Str []) (Str [])
                  (Str []) (Str []) (Str [])] = Inr t
       \<and> (leaf_str t [''A: Abstract''] = ''Short abstract. Short abstract.''
          \<or> leaf_str t [''A: Abstract''] = ''Short abstract.. Short abstract'')"
proof -
  have sp: "split_period_space ''Short abstract. Short abstract.''
              = [''Short abstract'', ''Short abstract.'']"
    by simp
  have ne: "''Short abstract'' \<noteq> ''Short abstract.''" by simp
  have two: "remove_repeated_sentences ord ''Short abstract. Short abstract.''
               = ''Short abstract. Short abstract.''
           \<or> remove_repeated_sentences ord ''Short abstract. Short abstract.''
               = ''Short abstract.. Short abstract''"
    unfolding remove_repeated_sentences_def sp
    using set_iter_pair [OF ne, of ord] by (elim disjE) simp_all
  have agg: "aggregate_reviews ord
          [filled (Str ''Short abstract.'') (Str []) (Str []) (Str []) (Str [])
                  (Str []) (Str []) (Str []),
           filled (Str ''Short abstract.'') (Str []) (Str []) (Str []) (Str [])
                  (Str []) (Str []) (Str [])]
        = Inr (filled (Str (remove_repeated_sentences ord ''Short abstract. Short abstract.''))
            (Str (remove_repeated_sentences ord '' '')) (Str (remove_repeated_sentences ord '' ''))
            (Str (remove_repeated_sentences ord '' '')) (Str (remove_repeated_sentences ord '' ''))
            (Str (remove_repeated_sentences ord '' '')) (Str (remove_repeated_sentences ord '' ''))
            (Str (remove_repeated_sentences ord '' '')))"
    by (simp add: aggregate_reviews_valid valid_review_filled review_tree_def leaf_str_filled)
  show ?thesis
    unfolding agg using two by (simp add: leaf_str_filled)
qed

text \<open>
  Claim C6 on the program. The first pass appends what it finds under the keys of a
  review's methods dictionary, so a review that lacks the research question appends
  nothing there, where a review holding the empty string appends the empty string.
  Next to a review whose research question is \<open>q\<close> the aggregated leaf is
  \<open>q\<close> in the first case and \<open>q\<close> followed by a space in the second.
\<close>

theorem aggregate_lacking_question:
  "aggregate_reviews ord
     [filled (Str []) (Str ''q'') (Str []) (Str []) (Str []) (Str []) (Str []) (Str []),
      review_lacking_question]
     = Inr (filled (Str '' '') (Str ''q'') (Str '' '') (Str '' '') (Str '' '')
              (Str '' '') (Str '' '') (Str '' ''))
   \<and> aggregate_reviews ord
     [filled (Str []) (Str ''q'') (Str []) (Str []) (Str []) (Str []) (Str []) (Str []),
      filled (Str []) (Str []) (Str []) (Str []) (Str []) (Str []) (Str []) (Str [])]
     = Inr (filled (Str '' '') (Str ''q '') (Str '' '') (Str '' '') (Str '' '')
              (Str '' '') (Str '' '') (Str '' ''))"
proof -
  let ?full = "filled (Str []) (Str ''q'') (Str []) (Str []) (Str []) (Str []) (Str []) (Str [])"
  let ?rs = "[?full, review_lacking_question]"
  have c: "list_all collectable ?rs"
    using valid_review_contributions(1) [OF valid_review_filled]
    by (simp add: collectable_lacking_question)
  note ev = gathered_Cons gathered_Nil methods_items_of_def dict_get_def values_under_def
    filled_def review_lacking_question_def
  have lacking: "aggregate_reviews ord ?rs
     = Inr (filled
       (Str (remove_repeated_sentences ord (join_str '' '' [[], []])))
       (Str (remove_repeated_sentences ord (join_str '' '' [''q''])))
       (Str (remove_repeated_sentences ord (join_str '' '' [[], []])))
       (Str (remove_repeated_sentences ord (join_str '' '' [[], []])))
       (Str (remove_repeated_sentences ord (join_str '' '' [[], []])))
       (Str (remove_repeated_sentences ord (join_str '' '' [[], []])))
       (Str (remove_repeated_sentences ord (join_str '' '' [[], []])))
       (Str (remove_repeated_sentences ord (join_str '' '' [[], []]))))"
    by (rule aggregate_reviews_gathered [OF c]) (simp_all add: ev)
  show ?thesis
    unfolding lacking
    by (simp add: aggregate_reviews_valid valid_review_filled review_tree_def leaf_str_filled
          dedupe_one_piece)
qed

section \<open>Properties of the summarizer adapter\<close>

lemma only_line_break: "xs @ c # ys = [c] \<longleftrightarrow> xs = [] \<and> ys = []"
  by (cases xs) auto

lemma summarize_text_sample:
  "text \<noteq> [] \<Longrightarrow> summarize_text sample_runtime text p 150 30 = Inr (Str ''A summary.'')"
  by (simp add: summarize_text_def sample_runtime_def only_line_break bind_err_def
        py_first_def py_subscript_def)

text \<open>
  Claim C8. The pipeline is taken to keep its contract: when it returns, it returns a
  list whose first element is a dictionary with a string under \<open>summary_text\<close>.
  Then \<open>summarize_text\<close> raises exactly when the pipeline raises, the exception
  it raises is a \<open>RuntimeError\<close> whose message ends with the text of the
  pipeline's exception, and otherwise it returns the pipeline's summary text unchanged.
  The input of the pipeline is the prompt, a line break and the text.
\<close>

theorem summarize_text_raises_iff:
  assumes "\<And>out. summarizer rt (format_value rt prompt @ [CHR 0x0A] @ text)
                    max_length min_length False = Inr out \<Longrightarrow>
             \<exists>kvs rest s. out = Lst (Dict kvs # rest) \<and> map_of kvs ''summary_text'' = Some (Str s)"
  shows "case summarizer rt (format_value rt prompt @ [CHR 0x0A] @ text)
                max_length min_length False of
           Inl e \<Rightarrow> summarize_text rt text prompt max_length min_length
                      = Inl (RuntimeError (''Summarization failed: '' @ exn_str e))
         | Inr out \<Rightarrow> \<exists>kvs rest s. out = Lst (Dict kvs # rest)
                      \<and> map_of kvs ''summary_text'' = Some (Str s)
                      \<and> summarize_text rt text prompt max_length min_length = Inr (Str s)"
proof (cases "summarizer rt (format_value rt prompt @ [CHR 0x0A] @ text) max_length min_length False")
  case (Inl e)
  then show ?thesis by (simp add: summarize_text_def bind_err_def)
next
  case (Inr out)
  from assms [OF Inr] obtain kvs rest s where
    out: "out = Lst (Dict kvs # rest)" and s: "map_of kvs ''summary_text'' = Some (Str s)"
    by (elim exE conjE)
  have "summarize_text rt text prompt max_length min_length = Inr (Str s)"
    using Inr by (simp add: summarize_text_def out s bind_err_def py_first_def py_subscript_def)
  with Inr out s show ?thesis by simp
qed

theorem summarize_text_raises_iff_witness:
  "summarize_text sample_runtime ''doc'' (Str ''Summarize.'') 150 30 = Inr (Str ''A summary.'')
   \<and> summarize_text sample_runtime [] (Str []) 150 30
       = Inl (RuntimeError ''Summarization failed: empty input'')"
proof -
  have a: "summarize_text sample_runtime ''doc'' (Str ''Summarize.'') 150 30 = Inr (Str ''A summary.'')"
    using summarize_text_raises_iff [of sample_runtime "Str ''Summarize.''" "''doc''" 150 30]
    by (simp add: sample_runtime_def format_value_def)
  have b: "summarize_text sample_runtime [] (Str []) 150 30
       = Inl (RuntimeError ''Summarization failed: empty input'')"
    using summarize_text_raises_iff [of sample_runtime "Str []" "[]" 150 30]
    by (simp add: sample_runtime_def format_value_def)
  from a b show ?thesis by (rule conjI)
qed

section \<open>Properties of the schema walker\<close>

lemma update_fresh: "k \<notin> fst ` set acc \<Longrightarrow> AList.update k v acc = acc @ [(k, v)]"
  by (induction acc) auto

lemma fold_update_build:
  assumes "\<And>acc k v. (k, v) \<in> set items \<Longrightarrow>
             step acc (k, v) = bind_err (build_review rt text v) (\<lambda>r. Inr (AList.update k r acc))"
    and "distinct (map fst items)"
    and "fst ` set acc \<inter> fst ` set items = {}"
  shows "fold_err step items acc = bind_err (build_items rt text items) (\<lambda>rs. Inr (acc @ rs))"
  using assms
proof (induction items arbitrary: acc)
  case Nil
  then show ?case by (simp add: bind_err_def)
next
  case (Cons item items)
  obtain k v where item: "item = (k, v)" by (cases item)
  have step: "step acc (k, v) = bind_err (build_review rt text v) (\<lambda>r. Inr (AList.update k r acc))"
    by (rule Cons.prems(1)) (simp add: item)
  have fresh: "k \<notin> fst ` set acc" using Cons.prems(3) item by auto
  show ?case
  proof (cases "build_review rt text v")
    case (Inl e)
    then show ?thesis by (simp add: item step bind_err_def)
  next
    case (Inr r)
    have "fold_err step items (acc @ [(k, r)])
            = bind_err (build_items rt text items) (\<lambda>rs. Inr ((acc @ [(k, r)]) @ rs))"
    proof (rule Cons.IH)
      show "step acc' (k', v') = bind_err (build_review rt text v') (\<lambda>r. Inr (AList.update k' r acc'))"
        if "(k', v') \<in> set items" for acc' k' v'
        by (rule Cons.prems(1)) (simp add: that)
      show "distinct (map fst items)" using Cons.prems(2) by simp
      show "fst ` set (acc @ [(k, r)]) \<inter> fst ` set items = {}"
        using Cons.prems(2,3) item by auto
    qed
    then show ?thesis
      by (simp add: item step Inr bind_err_def update_fresh [OF fresh] split: sum.splits)
  qed
qed

lemma build_review_leaf:
  "nests_within 0 v \<Longrightarrow> build_review rt text v = summarize_text rt text v 150 30"
  by (cases v) simp_all

lemma walk_nested:
  assumes "nests_within (Suc 0) (Dict items)"
  shows "fold_err (nested_step rt text) items [] = build_items rt text items"
proof -
  have "fold_err (nested_step rt text) items []
          = bind_err (build_items rt text items) (\<lambda>rs. Inr ([] @ rs))"
  proof (rule fold_update_build)
    fix acc k v assume "(k, v) \<in> set items"
    with assms have "nests_within 0 v" by auto
    then show "nested_step rt text acc (k, v)
        = bind_err (build_review rt text v) (\<lambda>r. Inr (AList.update k r acc))"
      by (simp add: nested_step_def build_review_leaf)
  qed (use assms in auto)
  then show ?thesis by (simp add: bind_err_def split: sum.splits)
qed

lemma walk_sub:
  assumes "nests_within (Suc (Suc 0)) (Dict items)"
  shows "fold_err (sub_step rt text) items [] = build_items rt text items"
proof -
  have "fold_err (sub_step rt text) items []
          = bind_err (build_items rt text items) (\<lambda>rs. Inr ([] @ rs))"
  proof (rule fold_update_build)
    fix acc k v assume "(k, v) \<in> set items"
    with assms have v: "nests_within (Suc 0) v" by auto
    show "sub_step rt text acc (k, v)
        = bind_err (build_review rt text v) (\<lambda>r. Inr (AList.update k r acc))"
    proof (cases v)
      case (Dict nested)
      with v show ?thesis
        by (simp add: sub_step_def walk_nested bind_err_def split: sum.splits)
    next
      case (Str x)
      then show ?thesis by (simp add: sub_step_def)
    next
      case (Lst x)
      then show ?thesis by (simp add: sub_step_def)
    qed
  qed (use assms in auto)
  then show ?thesis by (simp add: bind_err_def split: sum.splits)
qed

lemma walk_section:
  assumes "nests_within (Suc (Suc (Suc 0))) (Dict items)"
  shows "fold_err (section_step rt text) items [] = build_items rt text items"
proof -
  have "fold_err (section_step rt text) items []
          = bind_err (build_items rt text items) (\<lambda>rs. Inr ([] @ rs))"
  proof (rule fold_update_build)
    fix acc k v assume "(k, v) \<in> set items"
    with assms have v: "nests_within (Suc (Suc 0)) v" by auto
    show "section_step rt text acc (k, v)
        = bind_err (build_review rt text v) (\<lambda>r. Inr (AList.update k r acc))"
    proof (cases v)
      case (Dict sub)
      with v show ?thesis
        by (simp add: section_step_def walk_sub bind_err_def split: sum.splits)
    next
      case (Str x)
      then show ?thesis by (simp add: section_step_def)
    next
      case (Lst x)
      then show ?thesis by (simp add: section_step_def)
    qed
  qed (use assms in auto)
  then show ?thesis by (simp add: bind_err_def split: sum.splits)
qed

text \<open>
  Claim C2, as the program has it. The walker is three loops, one inside the other. On
  every schema whose dictionaries nest at most three deep, the fixed section schema
  among them, the loops return what the recursive walk returns: a summary for every
  leaf prompt, or the first exception.
\<close>

theorem walk_sections_three_levels:
  assumes "nests_within 3 (Dict schema)"
  shows "walk_sections rt text schema = build_review rt text (Dict schema)"
proof -
  from assms have "nests_within (Suc (Suc (Suc 0))) (Dict schema)"
    by (simp add: numeral_3_eq_3)
  then show ?thesis by (simp add: walk_sections_def walk_section)
qed

theorem walk_sections_three_levels_witness:
  "nests_within 3 (Dict sections)
   \<and> walk_sections sample_runtime ''doc'' sections
       = build_review sample_runtime ''doc'' (Dict sections)"
proof -
  have n: "nests_within 3 (Dict sections)" by (simp add: sections_def)
  show ?thesis
    by (intro conjI) (rule n, rule walk_sections_three_levels [OF n])
qed

text \<open>
  Claim C2 as stated fails: the innermost loop does not test whether a value is a
  dictionary. With a prompt at the fourth level, the dictionary that holds it goes to
  the summarizer as if it were a prompt; the loops return a text at the path of that
  dictionary, and the prompt inside gets no summary. The recursive walk reaches it.
\<close>

theorem walk_sections_at_level_four:
  "walk_sections sample_runtime ''doc'' deep_schema
     = Inr (Dict [(''S'', Dict [(''T'', Dict [(''U'', Str ''A summary.'')])])])
   \<and> build_review sample_runtime ''doc'' (Dict deep_schema)
     = Inr (Dict [(''S'', Dict [(''T'', Dict [(''U'', Dict [(''V'', Str ''A summary.'')])])])])"
  by (simp add: walk_sections_def section_step_def sub_step_def nested_step_def deep_schema_def
        bind_err_def summarize_text_sample)

lemma sections_shape:
  "\<exists>pa pq ps pi pe px py pd.
     sections =
       [(''A: Abstract'', Str pa),
        (''B: Methods'',
           Dict [(''1. Research Question'', Str pq),
                 (''2. Search Strategy'', Str ps),
                 (''3. Inclusion and Exclusion Criteria'',
                    Dict [(''Inclusion'', Str pi), (''Exclusion'', Str pe)]),
                 (''5. Data Extraction'', Str px),
                 (''6. Data Synthesis'', Str py)]),
        (''D: Results'', Str pd)]"
  by (simp add: sections_def)

lemma walk_fixed_keys:
  assumes "summarize_text rt text (Str pa) 150 30 = Inr (Str a)"
    and "summarize_text rt text (Str pq) 150 30 = Inr (Str q)"
    and "summarize_text rt text (Str ps) 150 30 = Inr (Str s)"
    and "summarize_text rt text (Str pi) 150 30 = Inr (Str i)"
    and "summarize_text rt text (Str pe) 150 30 = Inr (Str e)"
    and "summarize_text rt text (Str px) 150 30 = Inr (Str x)"
    and "summarize_text rt text (Str py) 150 30 = Inr (Str y)"
    and "summarize_text rt text (Str pd) 150 30 = Inr (Str d)"
  shows "walk_sections rt text
       [(''A: Abstract'', Str pa),
        (''B: Methods'',
           Dict [(''1. Research Question'', Str pq),
                 (''2. Search Strategy'', Str ps),
                 (''3. Inclusion and Exclusion Criteria'',
                    Dict [(''Inclusion'', Str pi), (''Exclusion'', Str pe)]),
                 (''5. Data Extraction'', Str px),
                 (''6. Data Synthesis'', Str py)]),
        (''D: Results'', Str pd)]
     = Inr (filled (Str a) (Str q) (Str s) (Str i) (Str e) (Str x) (Str y) (Str d))"
  by (simp add: walk_sections_def section_step_def sub_step_def nested_step_def bind_err_def
        filled_def assms)

lemma node_paths_filled:
  "node_paths (filled (Str a) (Str q) (Str s) (Str i) (Str e) (Str x) (Str y) (Str d))
     = node_paths (Dict sections)"
proof -
  from sections_shape obtain pa pq ps pi pe px py pd where
    sec: "sections =
       [(''A: Abstract'', Str pa),
        (''B: Methods'',
           Dict [(''1. Research Question'', Str pq),
                 (''2. Search Strategy'', Str ps),
                 (''3. Inclusion and Exclusion Criteria'',
                    Dict [(''Inclusion'', Str pi), (''Exclusion'', Str pe)]),
                 (''5. Data Extraction'', Str px),
                 (''6. Data Synthesis'', Str py)]),
        (''D: Results'', Str pd)]"
    by (elim exE)
  show ?thesis unfolding sec filled_def by simp
qed

text \<open>
  Claim C4. When the summarization of every leaf prompt of the section schema returns
  a string, \<open>structured_summary\<close> returns a tree of the shape of the schema: a
  string wherever the schema has a prompt, a dictionary of the same keys wherever the
  schema has one, and so the same set of node paths.
\<close>

theorem structured_summary_shape:
  assumes "\<And>p. p \<in> set (leaf_prompts (Dict sections)) \<Longrightarrow>
             \<exists>s. summarize_text rt text p 150 30 = Inr (Str s)"
  shows "\<exists>review. structured_summary rt text = Inr review
           \<and> valid_review review
           \<and> set (node_paths review) = set (node_paths (Dict sections))"
proof -
  from sections_shape obtain pa pq ps pi pe px py pd where
    sec: "sections =
       [(''A: Abstract'', Str pa),
        (''B: Methods'',
           Dict [(''1. Research Question'', Str pq),
                 (''2. Search Strategy'', Str ps),
                 (''3. Inclusion and Exclusion Criteria'',
                    Dict [(''Inclusion'', Str pi), (''Exclusion'', Str pe)]),
                 (''5. Data Extraction'', Str px),
                 (''6. Data Synthesis'', Str py)]),
        (''D: Results'', Str pd)]"
    by (elim exE)
  have lp: "leaf_prompts (Dict sections)
              = [Str pa, Str pq, Str ps, Str pi, Str pe, Str px, Str py, Str pd]"
    unfolding sec by simp
  have each: "\<exists>s. summarize_text rt text p 150 30 = Inr (Str s)"
    if "p \<in> set [Str pa, Str pq, Str ps, Str pi, Str pe, Str px, Str py, Str pd]" for p
    using assms [of p] that unfolding lp by simp
  from each [of "Str pa"] obtain a where a: "summarize_text rt text (Str pa) 150 30 = Inr (Str a)"
    by auto
  from each [of "Str pq"] obtain q where q: "summarize_text rt text (Str pq) 150 30 = Inr (Str q)"
    by auto
  from each [of "Str ps"] obtain s where s: "summarize_text rt text (Str ps) 150 30 = Inr (Str s)"
    by auto
  from each [of "Str pi"] obtain i where i: "summarize_text rt text (Str pi) 150 30 = Inr (Str i)"
    by auto
  from each [of "Str pe"] obtain e where e: "summarize_text rt text (Str pe) 150 30 = Inr (Str e)"
    by auto
  from each [of "Str px"] obtain x where x: "summarize_text rt text (Str px) 150 30 = Inr (Str x)"
    by auto
  from each [of "Str py"] obtain y where y: "summarize_text rt text (Str py) 150 30 = Inr (Str y)"
    by auto
  from each [of "Str pd"] obtain d where d: "summarize_text rt text (Str pd) 150 30 = Inr (Str d)"
    by auto
  have w: "structured_summary rt text
             = Inr (filled (Str a) (Str q) (Str s) (Str i) (Str e) (Str x) (Str y) (Str d))"
    unfolding structured_summary_def sec by (rule walk_fixed_keys [OF a q s i e x y d])
  show ?thesis
    by (intro exI conjI) (rule w, rule valid_review_filled, simp only: node_paths_filled)
qed

theorem structured_summary_shape_witness:
  "(\<exists>review. structured_summary sample_runtime ''doc'' = Inr review
           \<and> valid_review review
           \<and> set (node_paths review) = set (node_paths (Dict sections)))
   \<and> structured_summary sample_runtime ''doc''
       = Inr (filled (Str ''A summary.'') (Str ''A summary.'') (Str ''A summary.'')
                (Str ''A summary.'') (Str ''A summary.'') (Str ''A summary.'')
                (Str ''A summary.'') (Str ''A summary.''))"
proof
  show "\<exists>review. structured_summary sample_runtime ''doc'' = Inr review
           \<and> valid_review review
           \<and> set (node_paths review) = set (node_paths (Dict sections))"
    by (rule structured_summary_shape) (simp add: summarize_text_sample)
  from sections_shape obtain pa pq ps pi pe px py pd where
    sec: "sections =
       [(''A: Abstract'', Str pa),
        (''B: Methods'',
           Dict [(''1. Research Question'', Str pq),
                 (''2. Search Strategy'', Str ps),
                 (''3. Inclusion and Exclusion Criteria'',
                    Dict [(''Inclusion'', Str pi), (''Exclusion'', Str pe)]),
                 (''5. Data Extraction'', Str px),
                 (''6. Data Synthesis'', Str py)]),
        (''D: Results'', Str pd)]"
    by (elim exE)
  show "structured_summary sample_runtime ''doc''
       = Inr (filled (Str ''A summary.'') (Str ''A summary.'') (Str ''A summary.'')
                (Str ''A summary.'') (Str ''A summary.'') (Str ''A summary.'')
                (Str ''A summary.'') (Str ''A summary.''))"
    unfolding structured_summary_def sec
    by (rule walk_fixed_keys) (simp_all add: summarize_text_sample)
qed

section \<open>Further properties\<close>

text \<open>
  The normalizer on the example of the specification: runs of spaces, line breaks and
  tabs become one space, and the whitespace at both ends goes.
\<close>

theorem clean_text_example:
  "clean_text (codepoints_of (''a '' @ [CHR 0x0A, CHR 0x0A] @ '' b'' @ [CHR 0x09] @ ''c ''))
     = codepoints_of ''a b c''"
  by (simp add: clean_text_def codepoints_of_def py_isspace_def)

text \<open>The deduplicator returns the empty text for the empty text.\<close>

theorem remove_repeated_sentences_empty: "remove_repeated_sentences ord [] = []"
  by (rule dedupe_empty)

text \<open>
  The aggregator on any number of reviews of the shape of the schema: it does not
  raise, and every leaf of its result is the deduplicator applied to the leaves of the
  reviews at that path, in the order of the reviews, joined by single spaces.
\<close>

theorem aggregate_reviews_of_valid:
  assumes "list_all valid_review rs"
  shows "aggregate_reviews ord rs =
           Inr (review_tree (\<lambda>p. Str (remove_repeated_sentences ord
                  (join_str '' '' (map (\<lambda>r. leaf_str r p) rs)))))"
  using assms by (rule aggregate_reviews_valid)

theorem aggregate_reviews_of_valid_witness:
  "aggregate_reviews insertion_order
     [filled (Str ''One. Two'') (Str []) (Str []) (Str []) (Str []) (Str []) (Str []) (Str ''r''),
      filled (Str ''Two. Three'') (Str []) (Str []) (Str []) (Str []) (Str []) (Str []) (Str ''s''),
      filled (Str ''Three'') (Str []) (Str []) (Str []) (Str []) (Str []) (Str []) (Str ''t'')]
   = Inr (filled (Str ''One. Two Two. Three Three'') (Str ''  '') (Str ''  '') (Str ''  '')
            (Str ''  '') (Str ''  '') (Str ''  '') (Str ''r s t''))"
  using aggregate_reviews_of_valid [of
      "[filled (Str ''One. Two'') (Str []) (Str []) (Str []) (Str []) (Str []) (Str []) (Str ''r''),
        filled (Str ''Two. Three'') (Str []) (Str []) (Str []) (Str []) (Str []) (Str []) (Str ''s''),
        filled (Str ''Three'') (Str []) (Str []) (Str []) (Str []) (Str []) (Str []) (Str ''t'')]"
      insertion_order]
  by (simp add: valid_review_filled review_tree_def leaf_str_filled
        remove_repeated_sentences_def set_iter_insertion)

end
